(* ===== verification/Prelude.thy ===== *)
theory Prelude
  imports Main "HOL-Library.Word"
begin

text \<open>
  Shared vocabulary of the development: the machine integers of the source, Rust's
  \<^verbatim>\<open>Result\<close> and \<^verbatim>\<open>Option\<close> helpers as functions on sums and options, and the
  few list and word facts that several components use.
\<close>

section \<open>Machine integers\<close>

type_synonym u8 = "8 word"
type_synonym u16 = "16 word"
type_synonym u32 = "32 word"

type_synonym byte = u8

text \<open>\<^verbatim>\<open>u16::try_from(u32)\<close>: the value when it fits, otherwise an error.\<close>

definition try_into_u16 :: "u32 \<Rightarrow> u16 option" where
  "try_into_u16 n = (if unat n < 2 ^ 16 then Some (ucast n) else None)"

text \<open>\<^verbatim>\<open>u32::from(u16)\<close>.\<close>

definition into_u32 :: "u16 \<Rightarrow> u32" where
  "into_u32 n = ucast n"

lemma u16_less [simp]: "unat (n :: u16) < 65536"
  using unsigned_less [of n, where ?'a = nat] by simp

lemma unat_into_u32 [simp]: "unat (into_u32 n) = unat n"
proof -
  have "unat n < 2 ^ 32" by (rule less_trans [OF u16_less]) simp
  then show ?thesis by (simp add: into_u32_def unsigned_ucast_eq take_bit_nat_eq_self)
qed

lemma try_into_u16_SomeD: "try_into_u16 n = Some p \<Longrightarrow> unat p = unat n"
  by (auto simp: try_into_u16_def unsigned_ucast_eq take_bit_nat_eq_self split: if_splits)

lemma try_into_u16_into_u32 [simp]: "try_into_u16 (into_u32 n) = Some n"
proof -
  have "\<exists>p. try_into_u16 (into_u32 n) = Some p"
    by (simp add: try_into_u16_def)
  then obtain p where p: "try_into_u16 (into_u32 n) = Some p" ..
  then have "unat p = unat n" by (auto dest: try_into_u16_SomeD)
  then show ?thesis using p by (simp add: word_unat_eq_iff)
qed

lemma try_into_u16_Some_iff: "try_into_u16 n = Some p \<longleftrightarrow> n = into_u32 p"
proof
  assume "try_into_u16 n = Some p"
  then have "unat p = unat n" by (rule try_into_u16_SomeD)
  then have "unat (into_u32 p) = unat n" by simp
  then show "n = into_u32 p" by (simp only: word_unat_eq_iff)
qed simp

lemma try_into_u16_None_iff: "try_into_u16 n = None \<longleftrightarrow> 65536 \<le> unat n"
  by (auto simp: try_into_u16_def)

lemma into_u32_inject [simp]: "into_u32 a = into_u32 b \<longleftrightarrow> a = b"
  by (metis try_into_u16_into_u32 option.inject)

lemma into_u32_0 [simp]: "into_u32 0 = 0"
  by (simp add: into_u32_def)

section \<open>Result and Option\<close>

text \<open>\<^verbatim>\<open>Result<T, E>\<close> is \<open>'e + 'a\<close>: \<open>Inl\<close> is \<^verbatim>\<open>Err\<close>, \<open>Inr\<close> is \<^verbatim>\<open>Ok\<close>.\<close>

type_synonym ('e, 'a) result = "'e + 'a"

named_theorems result_simps "the helpers on results and options, unfolded"

definition map_err :: "('e \<Rightarrow> 'f) \<Rightarrow> ('e, 'a) result \<Rightarrow> ('f, 'a) result" where
  [result_simps]: "map_err f r = (case r of Inl e \<Rightarrow> Inl (f e) | Inr x \<Rightarrow> Inr x)"

definition map_ok :: "('a \<Rightarrow> 'b) \<Rightarrow> ('e, 'a) result \<Rightarrow> ('e, 'b) result" where
  [result_simps]: "map_ok f r = (case r of Inl e \<Rightarrow> Inl e | Inr x \<Rightarrow> Inr (f x))"

definition ok :: "('e, 'a) result \<Rightarrow> 'a option" where
  [result_simps]: "ok r = (case r of Inl e \<Rightarrow> None | Inr x \<Rightarrow> Some x)"

definition ok_or :: "'e \<Rightarrow> 'a option \<Rightarrow> ('e, 'a) result" where
  [result_simps]: "ok_or e x = (case x of None \<Rightarrow> Inl e | Some v \<Rightarrow> Inr v)"

text \<open>\<^verbatim>\<open>Result<Option<T>, E>::transpose\<close>.\<close>

definition transpose :: "('e, 'a option) result \<Rightarrow> ('e, 'a) result option" where
  [result_simps]: "transpose r =
     (case r of Inl e \<Rightarrow> Some (Inl e) | Inr None \<Rightarrow> None | Inr (Some x) \<Rightarrow> Some (Inr x))"

text \<open>The \<^verbatim>\<open>?\<close> operator, with \<open>f\<close> the \<^verbatim>\<open>From\<close> conversion of the error.\<close>

definition and_then :: "('e, 'a) result \<Rightarrow> ('a \<Rightarrow> ('e, 'b) result) \<Rightarrow> ('e, 'b) result" where
  [result_simps]: "and_then r k = (case r of Inl e \<Rightarrow> Inl e | Inr x \<Rightarrow> k x)"

text \<open>
  \<^verbatim>\<open>Iterator::collect::<Result<Vec<T>, E>>\<close>: the first error met, or all the values.
\<close>

fun collect_results :: "('e, 'a) result list \<Rightarrow> ('e, 'a list) result" where
  "collect_results [] = Inr []"
| "collect_results (Inl e # rs) = Inl e"
| "collect_results (Inr x # rs) = map_ok (\<lambda>xs. x # xs) (collect_results rs)"

lemma collect_results_Inr_iff:
  "collect_results rs = Inr xs \<longleftrightarrow> rs = map Inr xs"
proof (induction rs arbitrary: xs rule: collect_results.induct)
  case (3 x rs)
  have "collect_results (Inr x # rs) = Inr xs \<longleftrightarrow>
      (\<exists>ys. xs = x # ys \<and> collect_results rs = Inr ys)"
    by (auto simp: map_ok_def split: sum.splits)
  also have "\<dots> \<longleftrightarrow> Inr x # rs = map Inr xs"
    using 3 by (cases xs) auto
  finally show ?case .
qed auto

lemma collect_results_map_Inr [simp]: "collect_results (map Inr xs) = Inr xs"
  by (simp add: collect_results_Inr_iff)

lemma collect_results_Inl_iff:
  "collect_results rs = Inl e \<longleftrightarrow> (\<exists>xs rest. rs = map Inr xs @ Inl e # rest)"
proof (induction rs rule: collect_results.induct)
  case (2 e' rs)
  show ?case by (auto simp: Cons_eq_append_conv Cons_eq_map_conv)
next
  case (3 x rs)
  show ?case
  proof
    assume "collect_results (Inr x # rs) = Inl e"
    then have "collect_results rs = Inl e" by (auto simp: map_ok_def split: sum.splits)
    then obtain xs rest where "rs = map Inr xs @ Inl e # rest" using 3 by blast
    then have "Inr x # rs = map Inr (x # xs) @ Inl e # rest" by simp
    then show "\<exists>xs rest. Inr x # rs = map Inr xs @ Inl e # rest" by blast
  next
    assume "\<exists>xs rest. Inr x # rs = map Inr xs @ Inl e # rest"
    then obtain xs rest where "rs = map Inr xs @ Inl e # rest"
      by (auto simp: Cons_eq_append_conv)
    then show "collect_results (Inr x # rs) = Inl e" using 3 by (auto simp: map_ok_def)
  qed
qed simp

text \<open>\<^verbatim>\<open>std::io::Error\<close>: opaque to the program, told apart by a number.\<close>

datatype io_error = Io_Error int

section \<open>Lists\<close>

lemma map_filter_append [simp]:
  "List.map_filter f (xs @ ys) = List.map_filter f xs @ List.map_filter f ys"
  by (simp add: List.map_filter_def)

lemma map_filter_Nil_iff:
  "List.map_filter f xs = [] \<longleftrightarrow> (\<forall>x\<in>set xs. f x = None)"
  by (auto simp: List.map_filter_def filter_empty_conv)

end
