(* ===== verification/Ip_Addr.thy ===== *)
theory Ip_Addr
  imports Prelude
begin

text \<open>
  The address types of \<^verbatim>\<open>std::net\<close> that the program passes around
  (\<^verbatim>\<open>Ipv6Addr\<close>, \<^verbatim>\<open>Ipv4Addr\<close>, \<^verbatim>\<open>SocketAddrV6\<close>, \<^verbatim>\<open>SocketAddr\<close>) and the
  predicates of the standard library the source calls on them.
\<close>

unbundle bit_operations_syntax

section \<open>IP addresses\<close>

datatype ipv4_addr = Ipv4_Addr u8 u8 u8 u8

text \<open>An IPv6 address, by its eight segments as in \<^verbatim>\<open>Ipv6Addr::new\<close>.\<close>

datatype ipv6_addr = Ipv6_Addr u16 u16 u16 u16 u16 u16 u16 u16

fun segments :: "ipv6_addr \<Rightarrow> u16 list" where
  "segments (Ipv6_Addr a b c d e f g h) = [a, b, c, d, e, f, g, h]"

definition be_bytes :: "u16 \<Rightarrow> u8 list" where
  "be_bytes w = [ucast (drop_bit 8 w), ucast w]"

definition octets :: "ipv6_addr \<Rightarrow> u8 list" where
  "octets a = concat (map be_bytes (segments a))"

definition unspecified :: ipv6_addr where
  "unspecified = Ipv6_Addr 0 0 0 0 0 0 0 0"

definition localhost :: ipv6_addr where
  "localhost = Ipv6_Addr 0 0 0 0 0 0 0 1"

definition is_unspecified :: "ipv6_addr \<Rightarrow> bool" where
  "is_unspecified a \<longleftrightarrow> a = unspecified"

definition is_loopback :: "ipv6_addr \<Rightarrow> bool" where
  "is_loopback a \<longleftrightarrow> a = localhost"

definition is_multicast :: "ipv6_addr \<Rightarrow> bool" where
  "is_multicast a \<longleftrightarrow> hd (segments a) AND 0xff00 = 0xff00"

text \<open>The four scope bits of a multicast address (RFC 4291, section 2.7).\<close>

definition multicast_scope :: "ipv6_addr \<Rightarrow> u16" where
  "multicast_scope a = hd (segments a) AND 0x000f"

text \<open>\<^verbatim>\<open>Ipv6Addr::is_unicast_link_local\<close>: the block fe80::/10.\<close>

definition is_unicast_link_local :: "ipv6_addr \<Rightarrow> bool" where
  "is_unicast_link_local a \<longleftrightarrow> hd (segments a) AND 0xffc0 = 0xfe80"

lemma length_segments [simp]: "length (segments a) = 8"
  by (cases a) simp

lemma length_octets [simp]: "length (octets a) = 16"
  by (cases a) (simp add: octets_def be_bytes_def)

lemma segments_inject [simp]: "segments a = segments b \<longleftrightarrow> a = b"
  by (cases a; cases b) simp

text \<open>An address from the list of its segments, as \<^verbatim>\<open>Ipv6Addr::from([u16; 8])\<close>.\<close>

fun from_segments :: "u16 list \<Rightarrow> ipv6_addr" where
  "from_segments [a, b, c, d, e, f, g, h] = Ipv6_Addr a b c d e f g h"
| "from_segments _ = unspecified"

lemma from_segments_segments [simp]: "from_segments (segments a) = a"
  by (cases a) simp

section \<open>Socket addresses\<close>

record sockaddr_v6 =
  sa_ip :: ipv6_addr
  sa_port :: u16
  sa_flowinfo :: u32
  sa_scope_id :: u32

record sockaddr_v4 =
  sa4_ip :: ipv4_addr
  sa4_port :: u16

datatype socket_addr = V4 sockaddr_v4 | V6 sockaddr_v6

text \<open>\<^verbatim>\<open>SocketAddrV6::new\<close> and \<^verbatim>\<open>SocketAddrV6::set_port\<close>.\<close>

definition socket_addr_v6 :: "ipv6_addr \<Rightarrow> u16 \<Rightarrow> u32 \<Rightarrow> u32 \<Rightarrow> sockaddr_v6" where
  "socket_addr_v6 i p f s = \<lparr>sa_ip = i, sa_port = p, sa_flowinfo = f, sa_scope_id = s\<rparr>"

definition set_port :: "u16 \<Rightarrow> sockaddr_v6 \<Rightarrow> sockaddr_v6" where
  "set_port p a = a\<lparr>sa_port := p\<rparr>"

lemma socket_addr_v6_sel [simp]:
  "sa_ip (socket_addr_v6 i p f s) = i"
  "sa_port (socket_addr_v6 i p f s) = p"
  "sa_flowinfo (socket_addr_v6 i p f s) = f"
  "sa_scope_id (socket_addr_v6 i p f s) = s"
  by (simp_all add: socket_addr_v6_def)

lemma socket_addr_v6_inject [simp]:
  "socket_addr_v6 i p f s = socket_addr_v6 i' p' f' s' \<longleftrightarrow> i = i' \<and> p = p' \<and> f = f' \<and> s = s'"
  by (simp add: socket_addr_v6_def)

lemma set_port_sel [simp]:
  "sa_ip (set_port p a) = sa_ip a"
  "sa_port (set_port p a) = p"
  "sa_flowinfo (set_port p a) = sa_flowinfo a"
  "sa_scope_id (set_port p a) = sa_scope_id a"
  by (simp_all add: set_port_def)

lemma set_port_socket_addr_v6 [simp]:
  "set_port q (socket_addr_v6 i p f s) = socket_addr_v6 i q f s"
  by (simp add: set_port_def socket_addr_v6_def)

end
