(* ===== verification/Ip_Text.thy ===== *)
theory Ip_Text
  imports Ip_Addr
begin

text \<open>
  The text form of addresses in the Rust standard library: \<^verbatim>\<open>Display\<close> of
  \<^verbatim>\<open>Ipv6Addr\<close> and \<^verbatim>\<open>SocketAddrV6\<close> (used by the server to name the response
  collector in a URL) and their \<^verbatim>\<open>FromStr\<close> (used for the discovery address), with
  the proof that parsing inverts printing.
\<close>

section \<open>Numbers\<close>

definition digit_char :: "nat \<Rightarrow> char" where
  "digit_char d = char_of (if d < 10 then 48 + d else 87 + d)"

definition digit_value :: "char \<Rightarrow> nat option" where
  "digit_value c =
     (let n = of_char c :: nat in
      if 48 \<le> n \<and> n \<le> 57 then Some (n - 48)
      else if 97 \<le> n \<and> n \<le> 122 then Some (n - 87)
      else if 65 \<le> n \<and> n \<le> 90 then Some (n - 55)
      else None)"

text \<open>\<^verbatim>\<open>char::to_digit\<close>.\<close>

definition to_digit :: "nat \<Rightarrow> char \<Rightarrow> nat option" where
  "to_digit r c = (case digit_value c of None \<Rightarrow> None | Some d \<Rightarrow> if d < r then Some d else None)"

text \<open>\<^verbatim>\<open>{}\<close> (radix 10) and \<^verbatim>\<open>{:x}\<close> (radix 16) of an unsigned integer.\<close>

fun show_radix :: "nat \<Rightarrow> nat \<Rightarrow> string" where
  "show_radix r n =
     (if r < 2 \<or> n < r then [digit_char n] else show_radix r (n div r) @ [digit_char (n mod r)])"

declare show_radix.simps [simp del]

definition number_value :: "nat \<Rightarrow> string \<Rightarrow> nat" where
  "number_value r ds = foldl (\<lambda>v c. v * r + the (to_digit r c)) 0 ds"

text \<open>
  \<^verbatim>\<open>Parser::read_number\<close>: the longest run of digits, refused when it is empty, has more
  than \<open>maxd\<close> digits, has a leading zero that is not allowed, or does not fit below \<open>bound\<close>.
\<close>

definition read_number ::
  "nat \<Rightarrow> nat option \<Rightarrow> bool \<Rightarrow> nat \<Rightarrow> string \<Rightarrow> (nat \<times> string) option" where
  "read_number r maxd zero_ok bound s =
     (let ds = takeWhile (\<lambda>c. to_digit r c \<noteq> None) s in
      if ds = [] \<or> (case maxd of None \<Rightarrow> False | Some m \<Rightarrow> m < length ds) \<or>
         (\<not> zero_ok \<and> hd ds = CHR ''0'' \<and> 1 < length ds) \<or> bound \<le> number_value r ds
      then None
      else Some (number_value r ds, dropWhile (\<lambda>c. to_digit r c \<noteq> None) s))"

lemma digit_value_digit_char [simp]: "d < 36 \<Longrightarrow> digit_value (digit_char d) = Some d"
  by (auto simp: digit_value_def digit_char_def Let_def)

lemma to_digit_digit_char [simp]:
  "d < r \<Longrightarrow> r \<le> 36 \<Longrightarrow> to_digit r (digit_char d) = Some d"
  by (simp add: to_digit_def)

lemma digit_char_0 [simp]: "digit_char 0 = CHR ''0''"
  by code_simp

lemma digit_char_eq_0: "d < 36 \<Longrightarrow> digit_char d = CHR ''0'' \<Longrightarrow> d = 0"
proof -
  assume "d < 36" "digit_char d = CHR ''0''"
  then have "Some d = digit_value (CHR ''0'')" by (metis digit_value_digit_char)
  then show "d = 0" by (simp add: digit_value_def)
qed

lemma show_radix_neq_Nil [simp]: "show_radix r n \<noteq> []"
  by (subst show_radix.simps) simp

lemma show_radix_digits:
  "2 \<le> r \<Longrightarrow> r \<le> 36 \<Longrightarrow> \<forall>c\<in>set (show_radix r n). to_digit r c \<noteq> None"
proof (induction r n rule: show_radix.induct)
  case (1 r n)
  then show ?case
    by (cases "n < r") (auto simp: show_radix.simps [of r n])
qed

lemma number_value_snoc [simp]:
  "number_value r (ds @ [c]) = number_value r ds * r + the (to_digit r c)"
  by (simp add: number_value_def)

lemma number_value_show_radix: "2 \<le> r \<Longrightarrow> r \<le> 36 \<Longrightarrow> number_value r (show_radix r n) = n"
proof (induction r n rule: show_radix.induct)
  case (1 r n)
  show ?case
  proof (cases "n < r")
    case True
    with 1(2,3) show ?thesis
      by (simp add: show_radix.simps [of r n] number_value_def)
  next
    case False
    with 1 show ?thesis
      by (simp add: show_radix.simps [of r n])
  qed
qed

lemma length_show_radix:
  "2 \<le> r \<Longrightarrow> n < r ^ Suc k \<Longrightarrow> length (show_radix r n) \<le> Suc k"
proof (induction k arbitrary: n)
  case 0
  then show ?case by (simp add: show_radix.simps [of r n])
next
  case (Suc k)
  show ?case
  proof (cases "n < r")
    case True
    then show ?thesis by (simp add: show_radix.simps [of r n])
  next
    case False
    have "n div r < r ^ Suc k"
      using Suc.prems by (simp add: less_mult_imp_div_less mult.commute)
    then have "length (show_radix r (n div r)) \<le> Suc k"
      using Suc.IH Suc.prems(1) by blast
    with False show ?thesis by (simp add: show_radix.simps [of r n])
  qed
qed

lemma hd_show_radix:
  "2 \<le> r \<Longrightarrow> r \<le> 36 \<Longrightarrow> hd (show_radix r n) = CHR ''0'' \<Longrightarrow> n = 0"
proof (induction r n rule: show_radix.induct)
  case (1 r n)
  show ?case
  proof (cases "n < r")
    case True
    with 1(2-4) show ?thesis
      by (intro digit_char_eq_0) (auto simp: show_radix.simps [of r n])
  next
    case False
    with 1(2-4) have "hd (show_radix r (n div r)) = CHR ''0''"
      by (simp add: show_radix.simps [of r n])
    with 1 False have "n div r = 0" by simp
    with False 1(2) show ?thesis by (simp add: div_eq_0_iff)
  qed
qed

definition no_digit_first :: "nat \<Rightarrow> string \<Rightarrow> bool" where
  "no_digit_first r s \<longleftrightarrow> (s = [] \<or> to_digit r (hd s) = None)"

lemma read_number_show_radix:
  assumes "2 \<le> r" "r \<le> 36" and "n < bound" and "no_digit_first r rest"
    and "case maxd of None \<Rightarrow> True | Some m \<Rightarrow> length (show_radix r n) \<le> m"
  shows "read_number r maxd zero_ok bound (show_radix r n @ rest) = Some (n, rest)"
proof -
  let ?P = "\<lambda>c. to_digit r c \<noteq> None"
  have digits: "\<forall>c\<in>set (show_radix r n). ?P c"
    using assms(1,2) by (rule show_radix_digits)
  have rest: "takeWhile ?P rest = []" "dropWhile ?P rest = rest"
    using assms(4) by (cases rest; simp add: no_digit_first_def)+
  have tw: "takeWhile ?P (show_radix r n @ rest) = show_radix r n"
    using digits rest by (simp add: takeWhile_append)
  have dw: "dropWhile ?P (show_radix r n @ rest) = rest"
    using digits rest by (simp add: dropWhile_append)
  have len: "\<not> (case maxd of None \<Rightarrow> False | Some m \<Rightarrow> m < length (show_radix r n))"
    using assms(5) by (cases maxd) auto
  have zero: "\<not> (hd (show_radix r n) = CHR ''0'' \<and> 1 < length (show_radix r n))"
  proof
    assume zero: "hd (show_radix r n) = CHR ''0'' \<and> 1 < length (show_radix r n)"
    then have "n = 0" using hd_show_radix assms(1,2) by blast
    with zero show False using assms(1) by (simp add: show_radix.simps [of r])
  qed
  show ?thesis
    unfolding read_number_def Let_def tw dw
    using len zero assms(3) by (simp add: number_value_show_radix [OF assms(1,2)])
qed

lemma read_number_no_digit: "no_digit_first r s \<Longrightarrow> read_number r maxd zero_ok bound s = None"
  by (cases s) (auto simp: read_number_def no_digit_first_def)

lemma read_number_rest: "read_number r maxd z bound s = Some (n, rest) \<Longrightarrow> set rest \<subseteq> set s"
  by (auto simp: read_number_def Let_def split: if_splits dest: set_dropWhileD)

section \<open>Printing\<close>

text \<open>\<^verbatim>\<open>Display for Ipv4Addr\<close>.\<close>

fun show_ipv4 :: "ipv4_addr \<Rightarrow> string" where
  "show_ipv4 (Ipv4_Addr a b c d) =
     show_radix 10 (unat a) @ ''.'' @ show_radix 10 (unat b) @ ''.'' @
     show_radix 10 (unat c) @ ''.'' @ show_radix 10 (unat d)"

text \<open>\<^verbatim>\<open>Ipv6Addr::to_ipv4_mapped\<close>: the addresses ::ffff:a.b.c.d.\<close>

fun to_ipv4_mapped :: "ipv6_addr \<Rightarrow> ipv4_addr option" where
  "to_ipv4_mapped (Ipv6_Addr a b c d e f g h) =
     (if a = 0 \<and> b = 0 \<and> c = 0 \<and> d = 0 \<and> e = 0 \<and> f = 0xffff
      then Some (Ipv4_Addr (be_bytes g ! 0) (be_bytes g ! 1) (be_bytes h ! 0) (be_bytes h ! 1))
      else None)"

text \<open>
  The longest run of zero segments, the first of that length, as (start, length): the loop of
  \<^verbatim>\<open>Display for Ipv6Addr\<close> over \<^verbatim>\<open>segments.iter().enumerate()\<close>, with the current and
  the longest span so far.
\<close>

fun longest_zeros :: "nat \<Rightarrow> u16 list \<Rightarrow> nat \<times> nat \<Rightarrow> nat \<times> nat \<Rightarrow> nat \<times> nat" where
  "longest_zeros i [] current longest = longest"
| "longest_zeros i (s # ss) (start, len) longest =
     (if s = 0
      then let current = (if len = 0 then i else start, Suc len)
           in longest_zeros (Suc i) ss current (if snd longest < Suc len then current else longest)
      else longest_zeros (Suc i) ss (0, 0) longest)"

abbreviation hex :: "u16 \<Rightarrow> string" where
  "hex w \<equiv> show_radix 16 (unat w)"

definition fmt_tail :: "u16 list \<Rightarrow> string" where
  "fmt_tail ws = concat (map (\<lambda>w. '':'' @ hex w) ws)"

fun fmt_subslice :: "u16 list \<Rightarrow> string" where
  "fmt_subslice [] = ''''"
| "fmt_subslice (w # ws) = hex w @ fmt_tail ws"

text \<open>\<^verbatim>\<open>Display for Ipv6Addr\<close>.\<close>

definition show_ipv6 :: "ipv6_addr \<Rightarrow> string" where
  "show_ipv6 a =
     (case to_ipv4_mapped a of
        Some v4 \<Rightarrow> ''::ffff:'' @ show_ipv4 v4
      | None \<Rightarrow>
          (let (start, len) = longest_zeros 0 (segments a) (0, 0) (0, 0) in
           if 1 < len
           then fmt_subslice (take start (segments a)) @ ''::'' @
                fmt_subslice (drop (start + len) (segments a))
           else fmt_subslice (segments a)))"

text \<open>\<^verbatim>\<open>Display for SocketAddrV6\<close>: the scope is printed when it is not 0, the flow label never.\<close>

definition show_sockaddr_v6 :: "sockaddr_v6 \<Rightarrow> string" where
  "show_sockaddr_v6 a =
     (if sa_scope_id a = 0
      then ''['' @ show_ipv6 (sa_ip a) @ '']:'' @ show_radix 10 (unat (sa_port a))
      else ''['' @ show_ipv6 (sa_ip a) @ ''%'' @ show_radix 10 (unat (sa_scope_id a)) @ '']:'' @
           show_radix 10 (unat (sa_port a)))"

section \<open>Parsing\<close>

text \<open>
  A parser returns the value and the remaining text, or \<open>None\<close>, after which the text is
  unchanged (\<^verbatim>\<open>Parser::read_atomically\<close>).
\<close>

fun read_given_char :: "char \<Rightarrow> string \<Rightarrow> string option" where
  "read_given_char c [] = None"
| "read_given_char c (x # xs) = (if x = c then Some xs else None)"

text \<open>\<^verbatim>\<open>Parser::read_separator\<close>: the separator, but not before the first element.\<close>

definition read_separator ::
  "char \<Rightarrow> bool \<Rightarrow> (string \<Rightarrow> ('a \<times> string) option) \<Rightarrow> string \<Rightarrow> ('a \<times> string) option" where
  "read_separator sep first inner s =
     (if first then inner s else Option.bind (read_given_char sep s) inner)"

definition read_u8 :: "string \<Rightarrow> (u8 \<times> string) option" where
  "read_u8 s = map_option (\<lambda>(n, rest). (of_nat n, rest)) (read_number 10 (Some 3) False 256 s)"

text \<open>\<^verbatim>\<open>Parser::read_ipv4_addr\<close>: four decimal groups separated by dots.\<close>

definition read_ipv4_addr :: "string \<Rightarrow> (ipv4_addr \<times> string) option" where
  "read_ipv4_addr s =
     Option.bind (read_separator CHR ''.'' True read_u8 s) (\<lambda>(a, s1).
     Option.bind (read_separator CHR ''.'' False read_u8 s1) (\<lambda>(b, s2).
     Option.bind (read_separator CHR ''.'' False read_u8 s2) (\<lambda>(c, s3).
     Option.bind (read_separator CHR ''.'' False read_u8 s3) (\<lambda>(d, s4).
     Some (Ipv4_Addr a b c d, s4)))))"

definition read_group :: "string \<Rightarrow> (u16 \<times> string) option" where
  "read_group s = map_option (\<lambda>(n, rest). (of_nat n, rest)) (read_number 16 (Some 4) True 65536 s)"

definition from_be_bytes :: "u8 \<Rightarrow> u8 \<Rightarrow> u16" where
  "from_be_bytes hi lo = push_bit 8 (ucast hi) OR ucast lo"

text \<open>
  \<^verbatim>\<open>read_groups\<close> of \<^verbatim>\<open>Parser::read_ipv6_addr\<close>, with \<open>n\<close> the slots still free: the groups
  read and whether they end in an embedded IPv4 address (tried while two slots are left).
\<close>

fun read_groups :: "bool \<Rightarrow> nat \<Rightarrow> string \<Rightarrow> (u16 list \<times> bool) \<times> string" where
  "read_groups first 0 s = (([], False), s)"
| "read_groups first (Suc n) s =
     (case (if 1 \<le> n then read_separator CHR '':'' first read_ipv4_addr s else None) of
        Some (Ipv4_Addr a b c d, rest) \<Rightarrow> (([from_be_bytes a b, from_be_bytes c d], True), rest)
      | None \<Rightarrow>
          (case read_separator CHR '':'' first read_group s of
             Some (g, rest) \<Rightarrow>
               (let ((gs, v4), rest') = read_groups False n rest in ((g # gs, v4), rest'))
           | None \<Rightarrow> (([], False), s)))"

text \<open>\<^verbatim>\<open>Parser::read_ipv6_addr\<close>.\<close>

definition read_ipv6_addr :: "string \<Rightarrow> (ipv6_addr \<times> string) option" where
  "read_ipv6_addr s =
     (let ((head, v4), rest) = read_groups True 8 s in
      if length head = 8 then Some (from_segments head, rest)
      else if v4 then None
      else Option.bind (read_given_char CHR '':'' rest) (\<lambda>rest.
           Option.bind (read_given_char CHR '':'' rest) (\<lambda>rest.
           let ((tail, _), rest) = read_groups True (8 - (length head + 1)) rest in
           Some (from_segments (head @ replicate (8 - length head - length tail) 0 @ tail), rest))))"

text \<open>\<^verbatim>\<open>FromStr for Ipv6Addr\<close>: the whole text must be read.\<close>

definition parse_ipv6 :: "string \<Rightarrow> ipv6_addr option" where
  "parse_ipv6 s = (case read_ipv6_addr s of Some (a, []) \<Rightarrow> Some a | _ \<Rightarrow> None)"

definition read_decimal :: "nat \<Rightarrow> string \<Rightarrow> (nat \<times> string) option" where
  "read_decimal bound s = read_number 10 None True bound s"

definition read_scope_id :: "string \<Rightarrow> (u32 \<times> string) option" where
  "read_scope_id s =
     Option.bind (read_given_char CHR ''%'' s) (\<lambda>rest.
     map_option (\<lambda>(n, rest). (of_nat n, rest)) (read_decimal (2 ^ 32) rest))"

definition read_port :: "string \<Rightarrow> (u16 \<times> string) option" where
  "read_port s =
     Option.bind (read_given_char CHR '':'' s) (\<lambda>rest.
     map_option (\<lambda>(n, rest). (of_nat n, rest)) (read_decimal (2 ^ 16) rest))"

text \<open>\<^verbatim>\<open>Parser::read_socket_addr_v6\<close> and \<^verbatim>\<open>FromStr for SocketAddrV6\<close>.\<close>

definition parse_sockaddr_v6 :: "string \<Rightarrow> sockaddr_v6 option" where
  "parse_sockaddr_v6 s =
     Option.bind (read_given_char CHR ''['' s) (\<lambda>s1.
     Option.bind (read_ipv6_addr s1) (\<lambda>(ip, s2).
     let (scope, s3) = (case read_scope_id s2 of Some r \<Rightarrow> r | None \<Rightarrow> (0, s2)) in
     Option.bind (read_given_char CHR '']'' s3) (\<lambda>s4.
     Option.bind (read_port s4) (\<lambda>(port, s5).
     if s5 = [] then Some (socket_addr_v6 ip port 0 scope) else None))))"

section \<open>Parsing inverts printing\<close>

lemma of_nat_unat_word [simp]: "of_nat (unat w) = (w :: 'a::len word)"
  by (simp add: word_unat_eq_iff)

lemma length_hex: "length (hex w) \<le> 4"
  using length_show_radix [of 16 "unat w" 3] by simp

lemma read_group_hex:
  "no_digit_first 16 rest \<Longrightarrow> read_group (hex w @ rest) = Some (w, rest)"
  by (simp add: read_group_def read_number_show_radix length_hex)

lemma length_show_u8: "length (show_radix 10 (unat (b :: u8))) \<le> 3"
proof -
  have "unat b < 2 ^ 8" using unsigned_less [of b] by simp
  then have "unat b < 10 ^ Suc 2" by simp
  then show ?thesis using length_show_radix [of 10 "unat b" 2] by simp
qed

lemma read_u8_show:
  assumes "no_digit_first 10 rest"
  shows "read_u8 (show_radix 10 (unat (b :: u8)) @ rest) = Some (b, rest)"
proof -
  have "unat b < 256" using unsigned_less [of b, where ?'a = nat] by simp
  then show ?thesis
    using assms by (simp add: read_u8_def read_number_show_radix length_show_u8)
qed

lemma no_digit_first_simps [simp]:
  "no_digit_first r []"
  "no_digit_first r (c # cs) \<longleftrightarrow> to_digit r c = None"
  by (simp_all add: no_digit_first_def)

lemma to_digit_separators [simp]:
  "to_digit r CHR '':'' = None" "to_digit r CHR ''.'' = None" "to_digit r CHR '']'' = None"
  "to_digit r CHR ''%'' = None" "to_digit r CHR ''['' = None"
  by (simp_all add: to_digit_def digit_value_def)

lemma read_ipv4_show:
  "no_digit_first 10 rest \<Longrightarrow> read_ipv4_addr (show_ipv4 a @ rest) = Some (a, rest)"
  by (cases a) (simp add: read_ipv4_addr_def read_separator_def read_u8_show)

text \<open>Without a dot there is no embedded IPv4 address.\<close>

lemma read_u8_rest: "read_u8 s = Some (b, rest) \<Longrightarrow> set rest \<subseteq> set s"
  by (auto simp: read_u8_def dest!: read_number_rest)

lemma read_given_char_Some: "read_given_char c s = Some rest \<longleftrightarrow> s = c # rest"
  by (cases s) auto

lemma read_ipv4_no_dot: 
  assumes "CHR ''.'' \<notin> set s"
  shows "read_ipv4_addr s = None"
proof (cases "read_u8 s")
  case (Some r)
  then obtain b rest where r: "read_u8 s = Some (b, rest)" by (cases r) auto
  then have "CHR ''.'' \<notin> set rest" using assms read_u8_rest by blast
  then have "read_given_char CHR ''.'' rest = None" by (cases rest) auto
  then show ?thesis using r by (simp add: read_ipv4_addr_def read_separator_def)
qed (simp add: read_ipv4_addr_def read_separator_def)

lemma read_separator_ipv4_no_dot:
  "CHR ''.'' \<notin> set s \<Longrightarrow> read_separator CHR '':'' first read_ipv4_addr s = None"
  by (cases s) (auto simp: read_separator_def read_ipv4_no_dot)

text \<open>What may follow the last group, so that \<^verbatim>\<open>read_groups\<close> stops there.\<close>

fun stops :: "bool \<Rightarrow> string \<Rightarrow> bool" where
  "stops first [] = True"
| "stops first (c # cs) =
     (CHR ''.'' \<notin> set (c # cs) \<and> to_digit 16 c = None \<and>
      (c = CHR '':'' \<longrightarrow> first \<or> no_digit_first 16 cs))"

lemma stops_no_dot: "stops first s \<Longrightarrow> CHR ''.'' \<notin> set s"
  by (cases s) auto

lemma stops_no_digit: "stops first s \<Longrightarrow> no_digit_first 16 s"
  by (cases s) auto

lemma read_group_stops: "stops first s \<Longrightarrow> read_separator CHR '':'' first read_group s = None"
  by (cases s) (auto simp: read_separator_def read_group_def read_number_no_digit)

lemma read_groups_stops: "stops first s \<Longrightarrow> read_groups first n s = (([], False), s)"
  by (cases n) (auto simp: read_group_stops read_separator_ipv4_no_dot stops_no_dot split: option.splits)

lemma read_groups_none:
  "read_separator CHR '':'' first read_ipv4_addr s = None \<Longrightarrow>
   read_separator CHR '':'' first read_group s = None \<Longrightarrow>
   read_groups first n s = (([], False), s)"
  by (cases n) auto

lemma fmt_tail_simps [simp]:
  "fmt_tail [] = ''''"
  "fmt_tail (w # ws) = '':'' @ hex w @ fmt_tail ws"
  by (simp_all add: fmt_tail_def)

lemma dot_not_digit: "c \<in> set (show_radix r n) \<Longrightarrow> 2 \<le> r \<Longrightarrow> r \<le> 36 \<Longrightarrow> c \<noteq> CHR ''.''"
  using show_radix_digits [of r n] to_digit_separators(2) by metis

lemma hex_no_dot [simp]: "CHR ''.'' \<notin> set (hex w)"
  using dot_not_digit [of _ 16 "unat w"] by auto

lemma fmt_tail_no_dot [simp]: "CHR ''.'' \<notin> set (fmt_tail ws)"
  by (induction ws) auto

lemma no_digit_fmt_tail: "no_digit_first 16 rest \<Longrightarrow> no_digit_first 16 (fmt_tail ws @ rest)"
  by (cases ws) auto

lemma read_groups_tail:
  assumes "length ws \<le> n" and "stops False rest"
  shows "read_groups False n (fmt_tail ws @ rest) = ((ws, False), rest)"
  using assms
proof (induction ws arbitrary: n)
  case Nil
  then show ?case by (simp add: read_groups_stops)
next
  case (Cons w ws)
  then obtain m where n: "n = Suc m" and m: "length ws \<le> m" by (cases n) auto
  let ?s = "fmt_tail ws @ rest"
  have dot: "CHR ''.'' \<notin> set (fmt_tail (w # ws) @ rest)"
    using Cons.prems(2) stops_no_dot by auto
  have "read_group (hex w @ ?s) = Some (w, ?s)"
    using Cons.prems(2) by (intro read_group_hex no_digit_fmt_tail stops_no_digit)
  then have "read_separator CHR '':'' False read_group (fmt_tail (w # ws) @ rest) = Some (w, ?s)"
    by (simp add: read_separator_def)
  moreover have "read_groups False m ?s = ((ws, False), rest)"
    using Cons.IH m Cons.prems(2) by blast
  moreover note read_separator_ipv4_no_dot [OF dot, of False]
  ultimately show ?case using n by simp
qed

lemma read_groups_subslice:
  assumes "length ws \<le> n" and "stops (ws = []) rest"
  shows "read_groups True n (fmt_subslice ws @ rest) = ((ws, False), rest)"
proof (cases ws)
  case Nil
  then show ?thesis using assms by (simp add: read_groups_stops)
next
  case (Cons w ws')
  then obtain m where n: "n = Suc m" and m: "length ws' \<le> m" using assms(1) by (cases n) auto
  let ?s = "fmt_tail ws' @ rest"
  have rest: "stops False rest" using assms(2) Cons by simp
  have dot: "CHR ''.'' \<notin> set (hex w @ ?s)"
    using rest stops_no_dot by auto
  have "read_group (hex w @ ?s) = Some (w, ?s)"
    using rest by (intro read_group_hex no_digit_fmt_tail stops_no_digit)
  then show ?thesis
    using read_groups_tail [OF m rest] dot n Cons
    by (simp add: read_separator_def read_ipv4_no_dot)
qed

text \<open>The span found is within the address and holds zeros only.\<close>

definition zero_span :: "nat \<times> nat \<Rightarrow> u16 list \<Rightarrow> bool" where
  "zero_span sp ws \<longleftrightarrow>
     fst sp + snd sp \<le> length ws \<and> take (snd sp) (drop (fst sp) ws) = replicate (snd sp) 0"

lemma zero_span_0 [simp]: "zero_span (0, 0) ws"
  by (simp add: zero_span_def)

lemma zero_span_append: "zero_span sp ws \<Longrightarrow> zero_span sp (ws @ ws')"
  by (auto simp: zero_span_def)

lemma longest_zeros_span:
  assumes "i = length pre" and "zero_span (start, len) pre" and "0 < len \<Longrightarrow> start + len = i"
    and "zero_span longest pre"
  shows "zero_span (longest_zeros i ws (start, len) longest) (pre @ ws)"
  using assms
proof (induction i ws "(start, len)" longest arbitrary: pre start len rule: longest_zeros.induct)
  case (1 i longest)
  then show ?case by simp
next
  case (2 i s ss start len longest)
  have longest: "zero_span longest (pre @ [s])"
    using "2.prems"(4) by (rule zero_span_append)
  show ?case
  proof (cases "s = 0")
    case True
    let ?start = "if len = 0 then i else start"
    have current: "zero_span (?start, Suc len) (pre @ [s])"
      using "2.prems" True by (auto simp: zero_span_def replicate_append_same)
    have "zero_span (longest_zeros (Suc i) ss (?start, Suc len)
        (if snd longest < Suc len then (?start, Suc len) else longest)) ((pre @ [s]) @ ss)"
      by (rule "2.hyps"(1)) (use True current longest "2.prems" in auto)
    then show ?thesis using True by (simp add: Let_def)
  next
    case False
    have "zero_span (longest_zeros (Suc i) ss (0, 0) longest) ((pre @ [s]) @ ss)"
      by (rule "2.hyps"(2)) (use False longest "2.prems" in auto)
    then show ?thesis using False by simp
  qed
qed


text \<open>Bytes of a segment and back, for the embedded IPv4 form.\<close>

lemma from_be_bytes_be_bytes [simp]: "from_be_bytes (be_bytes w ! 0) (be_bytes w ! Suc 0) = w"
proof (rule bit_word_eqI)
  fix n assume "n < LENGTH(16)"
  then show "bit (from_be_bytes (be_bytes w ! 0) (be_bytes w ! Suc 0)) n = bit w n"
    by (auto simp: from_be_bytes_def be_bytes_def bit_simps)
qed

lemma show_ipv6_mapped:
  assumes "to_ipv4_mapped a = Some v4" and "no_digit_first 10 rest"
  shows "read_ipv6_addr (''::ffff:'' @ show_ipv4 v4 @ rest) = Some (a, rest)"
proof -
  obtain g h where a: "a = Ipv6_Addr 0 0 0 0 0 0xffff g h"
    and v4: "v4 = Ipv4_Addr (be_bytes g ! 0) (be_bytes g ! 1) (be_bytes h ! 0) (be_bytes h ! 1)"
    using assms(1) by (cases a) (auto split: if_splits)
  let ?s = "'':'' @ show_ipv4 v4 @ rest"
  have hd: "read_groups True 8 (''::ffff:'' @ show_ipv4 v4 @ rest)
      = (([], False), ''::ffff:'' @ show_ipv4 v4 @ rest)"
    by (rule read_groups_none)
      (simp_all add: read_separator_def read_ipv4_addr_def read_u8_def read_group_def read_number_no_digit)
  have "digit_char 15 = CHR ''f''" by code_simp
  then have "''ffff'' = hex 0xffff" by (simp add: show_radix.simps)
  then have g1: "read_group (''ffff'' @ ?s) = Some (0xffff, ?s)"
    using read_group_hex [of ?s "0xffff"] by simp
  have no4: "read_ipv4_addr (''ffff'' @ ?s) = None"
    by (simp add: read_ipv4_addr_def read_separator_def read_u8_def read_number_no_digit
        to_digit_def digit_value_def)
  have v4s: "read_groups False (Suc 5) ?s = (([g, h], True), rest)"
  proof -
    have "read_separator CHR '':'' False read_ipv4_addr ?s = Some (v4, rest)"
      using assms(2) by (simp add: read_separator_def read_ipv4_show del: show_ipv4.simps)
    then show ?thesis
      by (subst read_groups.simps) (simp add: v4 del: show_ipv4.simps)
  qed
  have "read_groups True (Suc (Suc 5)) (''ffff'' @ ?s) = (([0xffff, g, h], True), rest)"
    using g1 no4 v4s by (subst read_groups.simps) (simp add: read_separator_def)
  then have tl: "read_groups True 7 (''ffff'' @ ?s) = (([0xffff, g, h], True), rest)"
    by simp
  have zeros: "replicate 5 (0 :: u16) = [0, 0, 0, 0, 0]"
    by (simp add: eval_nat_numeral)
  show ?thesis
    using hd tl zeros by (simp add: read_ipv6_addr_def a)
qed

lemma read_show_ipv6:
  assumes "stops False rest" and "no_digit_first 10 rest"
  shows "read_ipv6_addr (show_ipv6 a @ rest) = Some (a, rest)"
proof (cases "to_ipv4_mapped a")
  case (Some v4)
  then show ?thesis using show_ipv6_mapped [OF Some assms(2)] by (simp add: show_ipv6_def)
next
  case None
  let ?ws = "segments a"
  obtain start len where span: "longest_zeros 0 ?ws (0, 0) (0, 0) = (start, len)"
    by (cases "longest_zeros 0 ?ws (0, 0) (0, 0)") auto
  have zeros: "zero_span (start, len) ?ws"
    using longest_zeros_span [of 0 "[]" 0 0 "(0, 0)" ?ws] span by simp
  show ?thesis
  proof (cases "1 < len")
    case True
    let ?tail = "fmt_subslice (drop (start + len) ?ws)"
    have s: "show_ipv6 a = fmt_subslice (take start ?ws) @ ''::'' @ ?tail"
      using None span True by (simp add: show_ipv6_def)
    have bound: "start + len \<le> 8" using zeros by (simp add: zero_span_def)
    have tail_no_dot: "CHR ''.'' \<notin> set (?tail @ rest)"
      using stops_no_dot [OF assms(1)] by (cases "drop (start + len) ?ws") auto
    have hd: "read_groups True 8 (fmt_subslice (take start ?ws) @ ''::'' @ ?tail @ rest)
        = ((take start ?ws, False), ''::'' @ ?tail @ rest)"
      by (rule read_groups_subslice) (use tail_no_dot bound True in auto)
    have st: "stops (drop (start + len) ?ws = []) rest"
      using assms(1) by (cases rest) auto
    have tl: "read_groups True (8 - (start + 1)) (?tail @ rest)
        = ((drop (start + len) ?ws, False), rest)"
      by (rule read_groups_subslice) (use st True bound in auto)
    have "?ws = take start ?ws @ replicate len 0 @ drop (start + len) ?ws"
      using zeros by (metis append_take_drop_id drop_drop add.commute fst_conv snd_conv zero_span_def)
    then have "from_segments (take start ?ws @ replicate len 0 @ drop (start + len) ?ws) = a"
      by (metis from_segments_segments)
    then show ?thesis
      using hd tl s bound True by (simp add: read_ipv6_addr_def min_def)
  next
    case False
    have s: "show_ipv6 a = fmt_subslice ?ws"
      using None span False by (simp add: show_ipv6_def)
    have ne: "?ws \<noteq> []" by (cases a) simp
    have "read_groups True 8 (fmt_subslice ?ws @ rest) = ((?ws, False), rest)"
      by (rule read_groups_subslice) (use ne assms(1) in auto)
    then show ?thesis using s by (simp add: read_ipv6_addr_def)
  qed
qed

lemma parse_show_ipv6: "parse_ipv6 (show_ipv6 a) = Some a"
  using read_show_ipv6 [of "[]" a] by (simp add: parse_ipv6_def)

lemma show_ipv6_inject [simp]: "show_ipv6 a = show_ipv6 b \<longleftrightarrow> a = b"
  by (metis parse_show_ipv6 option.inject)

lemma read_decimal_show:
  "n < bound \<Longrightarrow> no_digit_first 10 rest \<Longrightarrow>
     read_decimal bound (show_radix 10 n @ rest) = Some (n, rest)"
  by (simp add: read_decimal_def read_number_show_radix)

lemma decimal_no_dot [simp]: "CHR ''.'' \<notin> set (show_radix 10 n)"
  using dot_not_digit [of _ 10 n] by auto

lemma read_port_show: "read_port ('':'' @ show_radix 10 (unat p)) = Some (p, [])"
  using read_decimal_show [of "unat p" "2 ^ 16" "[]"] by (simp add: read_port_def)

lemma read_scope_show:
  "read_scope_id (''%'' @ show_radix 10 (unat s) @ '']'' @ rest) = Some (s, '']'' @ rest)"
proof -
  have "unat s < 2 ^ 32" using unsigned_less [of s, where ?'a = nat] by simp
  then show ?thesis
    using read_decimal_show [of "unat s" "2 ^ 32" "'']'' @ rest"] by (simp add: read_scope_id_def)
qed

text \<open>The printed socket address reads back as the same address, with the flow label dropped.\<close>

lemma parse_show_sockaddr_v6:
  "parse_sockaddr_v6 (show_sockaddr_v6 a) = Some (a\<lparr>sa_flowinfo := 0\<rparr>)"
proof -
  let ?port = "'']:'' @ show_radix 10 (unat (sa_port a))"
  let ?scope = "''%'' @ show_radix 10 (unat (sa_scope_id a)) @ ?port"
  have "read_ipv6_addr (show_ipv6 (sa_ip a) @ ?port) = Some (sa_ip a, ?port)"
    by (rule read_show_ipv6) simp_all
  moreover have "read_ipv6_addr (show_ipv6 (sa_ip a) @ ?scope) = Some (sa_ip a, ?scope)"
    by (rule read_show_ipv6) simp_all
  moreover have "read_scope_id ?scope = Some (sa_scope_id a, ?port)"
    using read_scope_show [of "sa_scope_id a"] by simp
  moreover have "read_scope_id ?port = None"
    by (simp add: read_scope_id_def)
  ultimately show ?thesis
    using read_port_show [of "sa_port a"]
    by (cases a) (auto simp: parse_sockaddr_v6_def show_sockaddr_v6_def socket_addr_v6_def)
qed

end
