(* ===== verification/Discovery.thy ===== *)
theory Discovery
  imports Ip_Text
begin

text \<open>
  The crate root (\<^verbatim>\<open>main/src/lib.rs\<close>): the hard-coded multicast address on which scanners
  and servers meet.
\<close>

text \<open>The \<^verbatim>\<open>parse()\<close> that \<^verbatim>\<open>get_discovery_ip\<close> expects to succeed.\<close>

definition parsed_discovery_ip :: "ipv6_addr option" where
  "parsed_discovery_ip = parse_ipv6 ''FF05::F329:58AF''"

definition get_discovery_ip :: ipv6_addr where
  "get_discovery_ip = the parsed_discovery_ip"

lemma parsed_discovery_ip:
  "parsed_discovery_ip = Some (Ipv6_Addr 0xFF05 0 0 0 0 0 0xF329 0x58AF)"
proof -
  note defs = read_separator_def read_group_def read_number_def to_digit_def digit_value_def
    number_value_def read_ipv4_no_dot
  have hd: "read_groups True (Suc (Suc 6)) ''FF05::F329:58AF'' = (([0xFF05], False), ''::F329:58AF'')"
    by (subst read_groups.simps, subst read_groups.simps) (simp add: defs)
  have tl: "read_groups True (Suc (Suc (Suc 3))) ''F329:58AF'' = (([0xF329, 0x58AF], False), [])"
    by (subst read_groups.simps, subst read_groups.simps, subst read_groups.simps) (simp add: defs)
  show ?thesis
    using hd tl
    by (simp add: parsed_discovery_ip_def parse_ipv6_def read_ipv6_addr_def eval_nat_numeral)
qed

lemma get_discovery_ip: "get_discovery_ip = Ipv6_Addr 0xFF05 0 0 0 0 0 0xF329 0x58AF"
  by (simp add: get_discovery_ip_def parsed_discovery_ip)

section \<open>Properties\<close>

text \<open>
  The literal in the source parses, to a multicast address of scope 5, and the
  address prints as the lower-case form of that literal.
\<close>

theorem discovery_address:
  "get_discovery_ip = Ipv6_Addr 0xFF05 0 0 0 0 0 0xF329 0x58AF \<and>
   parse_ipv6 ''FF05::F329:58AF'' = Some get_discovery_ip \<and>
   is_multicast get_discovery_ip \<and> multicast_scope get_discovery_ip = 5 \<and>
   show_ipv6 get_discovery_ip = ''ff05::f329:58af''"
proof (intro conjI)
  show "show_ipv6 get_discovery_ip = ''ff05::f329:58af''"
    by (simp add: get_discovery_ip show_ipv6_def show_radix.simps digit_char_def
      char_of_def bit_0)
qed (use parsed_discovery_ip in \<open>simp_all add: get_discovery_ip is_multicast_def multicast_scope_def parsed_discovery_ip_def\<close>)

end
