(* ===== verification/Protocol.thy ===== *)
theory Protocol
  imports Prelude
begin

text \<open>
  The protocol crate (\<^verbatim>\<open>protocol/rust/src/lib.rs\<close> and the message schemas under
  \<^verbatim>\<open>protocol/grpc\<close>): the messages, their accessors and conversions, and the frame
  decoder that the UDP receiver runs on every datagram. The codec that \<^verbatim>\<open>prost\<close>
  derives from the schemas is a parameter; the locale \<open>message_codec\<close> states what the
  program relies on.
\<close>

section \<open>Messages\<close>

record request =
  req_response_collector_port :: u32

record response =
  res_service_port :: u32

datatype payload = Payload_Request request | Payload_Announcement response

record discovery_packet =
  payload :: "payload option"

definition unwrap_request :: "discovery_packet \<Rightarrow> request option" where
  "unwrap_request p = (case payload p of Some (Payload_Request r) \<Rightarrow> Some r | _ \<Rightarrow> None)"

definition unwrap_response :: "discovery_packet \<Rightarrow> response option" where
  "unwrap_response p = (case payload p of Some (Payload_Announcement r) \<Rightarrow> Some r | _ \<Rightarrow> None)"

definition packet_from_request :: "request \<Rightarrow> discovery_packet" where
  "packet_from_request r = \<lparr>payload = Some (Payload_Request r)\<rparr>"

definition packet_from_response :: "response \<Rightarrow> discovery_packet" where
  "packet_from_response r = \<lparr>payload = Some (Payload_Announcement r)\<rparr>"

lemma unwrap_from [simp]:
  "unwrap_request (packet_from_request r) = Some r"
  "unwrap_response (packet_from_response s) = Some s"
  "unwrap_request (packet_from_response s) = None"
  "unwrap_response (packet_from_request r) = None"
  by (simp_all add: unwrap_request_def unwrap_response_def packet_from_request_def
      packet_from_response_def)

lemma unwrap_request_Some_iff: "unwrap_request p = Some r \<longleftrightarrow> p = packet_from_request r"
  by (cases p) (auto simp: unwrap_request_def packet_from_request_def
      split: option.splits payload.splits)

lemma unwrap_response_Some_iff: "unwrap_response p = Some r \<longleftrightarrow> p = packet_from_response r"
  by (cases p) (auto simp: unwrap_response_def packet_from_response_def
      split: option.splits payload.splits)

section \<open>The frame decoder\<close>

text \<open>\<^verbatim>\<open>prost::DecodeError\<close>, opaque.\<close>

datatype prost_error = Prost_Error int

datatype decode_error = Decode_Io io_error | Decode_Protobuf prost_error

text \<open>
  \<^verbatim>\<open>Message::decode\<close> of the message type, as the parameter \<open>dec\<close>: from the buffer, the
  message or an error and what is left of the buffer.
\<close>

type_synonym 'm message_decoder = "byte list \<Rightarrow> (prost_error, 'm) result \<times> byte list"

definition protobuf_decode ::
  "'m message_decoder \<Rightarrow> byte list \<Rightarrow> (decode_error, 'm option) result \<times> byte list" where
  "protobuf_decode dec src =
     (if src = [] then (Inr None, src)
      else case dec src of
             (Inl e, rest) \<Rightarrow> (Inl (Decode_Protobuf e), rest)
           | (Inr m, rest) \<Rightarrow> (Inr (Some m), rest))"

section \<open>What the program relies on in the codec\<close>

text \<open>
  \<^verbatim>\<open>Message::decode\<close> consumes the entire buffer when it succeeds. What it leaves of a
  buffer it refuses is not specified.
\<close>

locale message_decoder =
  fixes dec :: "'m message_decoder"
  assumes decode_whole: "dec b = (Inr m, rest) \<Longrightarrow> rest = []"

text \<open>
  \<^verbatim>\<open>Message::encode_to_vec\<close> and \<^verbatim>\<open>Message::decode\<close>: decoding what was encoded gives the
  message back and consumes the whole buffer.
\<close>

locale message_codec = message_decoder dec
  for enc :: "'m \<Rightarrow> byte list" and dec :: "'m message_decoder" +
  assumes decode_encode: "dec (enc m) = (Inr m, [])"
begin

lemma enc_inject: "enc m = enc m' \<Longrightarrow> m = m'"
  by (metis decode_encode prod.inject sum.inject(2))

lemma frame_of_encoding:
  "enc m \<noteq> [] \<Longrightarrow> protobuf_decode dec (enc m) = (Inr (Some m), [])"
  by (simp add: protobuf_decode_def decode_encode)

lemma no_frame_of_empty_encoding: "enc m = [] \<Longrightarrow> protobuf_decode dec (enc m) = (Inr None, [])"
  by (simp add: protobuf_decode_def)

end

text \<open>
  The codec of \<^verbatim>\<open>DiscoveryPacket\<close>: a member of a \<^verbatim>\<open>oneof\<close> that is set is written even
  when it holds default values only, so its encoding is not empty.
\<close>

locale packet_codec = message_codec enc dec
  for enc :: "discovery_packet \<Rightarrow> byte list" and dec :: "discovery_packet message_decoder" +
  assumes oneof_written: "payload p \<noteq> None \<Longrightarrow> enc p \<noteq> []"
begin

lemma frame_of_request:
  "protobuf_decode dec (enc (packet_from_request r)) = (Inr (Some (packet_from_request r)), [])"
  by (rule frame_of_encoding, rule oneof_written) (simp add: packet_from_request_def)

lemma frame_of_response:
  "protobuf_decode dec (enc (packet_from_response r)) = (Inr (Some (packet_from_response r)), [])"
  by (rule frame_of_encoding, rule oneof_written) (simp add: packet_from_response_def)

end

end
