(* ===== verification/Wire_Format.thy ===== *)
theory Wire_Format
  imports Protocol
begin

text \<open>
  The proto3 wire format of the three messages of \<^verbatim>\<open>protocol/grpc/tw/seamlik/tansa/v1\<close>
  (\<^verbatim>\<open>discovery_packet.proto\<close>, \<^verbatim>\<open>request.proto\<close>, \<^verbatim>\<open>response.proto\<close>), as the
  protocol-buffers encoding specification defines it: a codec of the model's own, for which
  the laws the program relies on are proved.
\<close>

section \<open>Varints\<close>

fun encode_varint :: "nat \<Rightarrow> byte list" where
  "encode_varint n =
     (if n < 128 then [of_nat n] else of_nat (n mod 128 + 128) # encode_varint (n div 128))"

declare encode_varint.simps [simp del]

text \<open>At most \<open>k\<close> bytes are read; a varint has at most ten.\<close>

fun decode_varint :: "nat \<Rightarrow> byte list \<Rightarrow> (nat \<times> byte list) option" where
  "decode_varint 0 bs = None"
| "decode_varint (Suc k) [] = None"
| "decode_varint (Suc k) (b # bs) =
     (if unat b < 128 then Some (unat b, bs)
      else map_option (\<lambda>(v, rest). (unat b - 128 + 128 * v, rest)) (decode_varint k bs))"

lemma unat_byte_of_nat [simp]: "n < 256 \<Longrightarrow> unat (of_nat n :: byte) = n"
  by (simp add: unat_of_nat take_bit_nat_eq_self)

lemma encode_varint_neq_Nil [simp]: "encode_varint n \<noteq> []"
  by (subst encode_varint.simps) simp

lemma decode_encode_varint:
  "n < 128 ^ Suc k \<Longrightarrow> decode_varint (Suc k) (encode_varint n @ rest) = Some (n, rest)"
proof (induction k arbitrary: n)
  case 0
  then show ?case by (simp add: encode_varint.simps [of n])
next
  case (Suc k)
  show ?case
  proof (cases "n < 128")
    case True
    then show ?thesis by (simp add: encode_varint.simps [of n])
  next
    case False
    have "n div 128 < 128 ^ Suc k"
      using Suc.prems by (simp add: less_mult_imp_div_less mult.commute)
    then have "decode_varint (Suc k) (encode_varint (n div 128) @ rest) = Some (n div 128, rest)"
      by (rule Suc.IH)
    moreover have "unat (of_nat (n mod 128 + 128) :: byte) = n mod 128 + 128"
      by (rule unat_byte_of_nat) simp
    ultimately show ?thesis
      using False by (simp add: encode_varint.simps [of n] del: of_nat_add)
  qed
qed

lemma decode_varint_shorter:
  "decode_varint k bs = Some (n, rest) \<Longrightarrow> length rest < length bs"
  by (induction k bs arbitrary: n rest rule: decode_varint.induct)
    (fastforce split: if_splits)+

section \<open>Fields\<close>

text \<open>A field starts with a key: the field number and the wire type.\<close>

definition decode_key :: "byte list \<Rightarrow> (nat \<times> nat \<times> byte list) option" where
  "decode_key bs =
     (case decode_varint 10 bs of
        None \<Rightarrow> None
      | Some (k, rest) \<Rightarrow> Some (k div 8, k mod 8, rest))"

text \<open>\<open>decode_len\<close> splits off a length-delimited value.\<close>

definition decode_len :: "byte list \<Rightarrow> (byte list \<times> byte list) option" where
  "decode_len bs =
     (case decode_varint 10 bs of
        None \<Rightarrow> None
      | Some (n, rest) \<Rightarrow> if length rest < n then None else Some (take n rest, drop n rest))"

text \<open>An unknown field is skipped by its wire type; groups are not read.\<close>

definition skip_field :: "nat \<Rightarrow> byte list \<Rightarrow> byte list option" where
  "skip_field wt bs =
     (if wt = 0 then map_option snd (decode_varint 10 bs)
      else if wt = 1 then (if length bs < 8 then None else Some (drop 8 bs))
      else if wt = 2 then map_option snd (decode_len bs)
      else if wt = 5 then (if length bs < 4 then None else Some (drop 4 bs))
      else None)"

lemma decode_key_shorter: "decode_key bs = Some (t, w, rest) \<Longrightarrow> length rest < length bs"
  by (auto simp: decode_key_def dest: decode_varint_shorter split: option.splits)

lemma decode_len_shorter: "decode_len bs = Some (v, rest) \<Longrightarrow> length rest < length bs"
  by (auto simp: decode_len_def dest!: decode_varint_shorter split: option.splits if_splits)

lemma skip_field_shorter: "skip_field w bs = Some rest \<Longrightarrow> length rest \<le> length bs"
  by (auto simp: skip_field_def split: if_splits
      dest!: decode_varint_shorter decode_len_shorter)

section \<open>Request and Response: one uint32 field with number 1\<close>

definition encode_u32_message :: "u32 \<Rightarrow> byte list" where
  "encode_u32_message v = (if v = 0 then [] else 8 # encode_varint (unat v))"

function decode_u32_message :: "u32 \<Rightarrow> byte list \<Rightarrow> u32 option" where
  "decode_u32_message v bs =
     (if bs = [] then Some v
      else case decode_key bs of
             None \<Rightarrow> None
           | Some (tag, wt, rest) \<Rightarrow>
               (if tag = 1
                then if wt = 0
                     then case decode_varint 10 rest of
                            None \<Rightarrow> None
                          | Some (n, rest') \<Rightarrow> decode_u32_message (of_nat n) rest'
                     else None
                else case skip_field wt rest of
                       None \<Rightarrow> None
                     | Some rest' \<Rightarrow> decode_u32_message v rest'))"
  by pat_completeness auto
termination
  by (relation "measure (\<lambda>(v, bs). length bs)")
    (auto dest!: decode_key_shorter decode_varint_shorter skip_field_shorter)

declare decode_u32_message.simps [simp del]

lemma u32_less: "unat (v :: u32) < 4294967296"
  using unsigned_less [of v, where ?'a = nat] by simp

lemma decode_varint_u32: "decode_varint 10 (encode_varint (unat (v :: u32)) @ rest) = Some (unat v, rest)"
proof -
  have "unat v < 128 ^ Suc 9" by (rule less_trans [OF u32_less]) simp
  from decode_encode_varint [OF this] show ?thesis by simp
qed

lemma decode_varint_small: "b < 128 \<Longrightarrow> decode_varint 10 (b # rest) = Some (unat b, rest)"
proof -
  assume "b < 128"
  then have "unat b < 128" by (simp add: word_less_nat_alt)
  then have "decode_varint (Suc 9) (b # rest) = Some (unat b, rest)"
    by (simp only: decode_varint.simps if_True)
  then show ?thesis by simp
qed

lemma decode_encode_u32_message: "decode_u32_message 0 (encode_u32_message v) = Some v"
proof (cases "v = 0")
  case True
  then show ?thesis by (simp add: encode_u32_message_def decode_u32_message.simps [of _ "[]"])
next
  case False
  have "decode_key (8 # encode_varint (unat v)) = Some (1, 0, encode_varint (unat v))"
    by (simp add: decode_key_def decode_varint_small)
  moreover have "decode_varint 10 (encode_varint (unat v)) = Some (unat v, [])"
    using decode_varint_u32 [of v "[]"] by simp
  ultimately show ?thesis
    using False
    by (subst decode_u32_message.simps)
      (simp add: encode_u32_message_def decode_u32_message.simps [of _ "[]"])
qed

section \<open>DiscoveryPacket: a oneof of two messages, with numbers 1 and 2\<close>

definition encode_message_field :: "byte \<Rightarrow> byte list \<Rightarrow> byte list" where
  "encode_message_field key body = key # encode_varint (length body) @ body"

definition encode_packet :: "discovery_packet \<Rightarrow> byte list" where
  "encode_packet p =
     (case payload p of
        None \<Rightarrow> []
      | Some (Payload_Request r) \<Rightarrow>
          encode_message_field 10 (encode_u32_message (req_response_collector_port r))
      | Some (Payload_Announcement r) \<Rightarrow>
          encode_message_field 18 (encode_u32_message (res_service_port r)))"

text \<open>
  Where a member of the oneof occurs again, the later value is merged into the earlier one;
  another member replaces it.
\<close>

definition merge_request :: "payload option \<Rightarrow> byte list \<Rightarrow> payload option" where
  "merge_request pl body =
     (let v = (case pl of Some (Payload_Request r) \<Rightarrow> req_response_collector_port r | _ \<Rightarrow> 0) in
      map_option (\<lambda>n. Payload_Request \<lparr>req_response_collector_port = n\<rparr>) (decode_u32_message v body))"

definition merge_announcement :: "payload option \<Rightarrow> byte list \<Rightarrow> payload option" where
  "merge_announcement pl body =
     (let v = (case pl of Some (Payload_Announcement r) \<Rightarrow> res_service_port r | _ \<Rightarrow> 0) in
      map_option (\<lambda>n. Payload_Announcement \<lparr>res_service_port = n\<rparr>) (decode_u32_message v body))"

function decode_payload :: "payload option \<Rightarrow> byte list \<Rightarrow> payload option option" where
  "decode_payload pl bs =
     (if bs = [] then Some pl
      else case decode_key bs of
             None \<Rightarrow> None
           | Some (tag, wt, rest) \<Rightarrow>
               (if tag = 1 \<or> tag = 2
                then if wt = 2
                     then case decode_len rest of
                            None \<Rightarrow> None
                          | Some (body, rest') \<Rightarrow>
                              (case (if tag = 1 then merge_request pl body
                                     else merge_announcement pl body) of
                                 None \<Rightarrow> None
                               | Some pl' \<Rightarrow> decode_payload (Some pl') rest')
                     else None
                else case skip_field wt rest of
                       None \<Rightarrow> None
                     | Some rest' \<Rightarrow> decode_payload pl rest'))"
  by pat_completeness auto
termination
  by (relation "measure (\<lambda>(v, bs). length bs)")
    (auto dest!: decode_key_shorter decode_len_shorter skip_field_shorter)

declare decode_payload.simps [simp del]

definition decode_packet :: "discovery_packet message_decoder" where
  "decode_packet bs =
     (case decode_payload None bs of
        None \<Rightarrow> (Inl (Prost_Error 0), [])
      | Some pl \<Rightarrow> (Inr \<lparr>payload = pl\<rparr>, []))"

lemma length_encode_varint: "n < 128 ^ Suc k \<Longrightarrow> length (encode_varint n) \<le> Suc k"
proof (induction k arbitrary: n)
  case 0
  then show ?case by (simp add: encode_varint.simps [of n])
next
  case (Suc k)
  have "n div 128 < 128 ^ Suc k"
    using Suc.prems by (simp add: less_mult_imp_div_less mult.commute)
  then show ?case using Suc.IH [of "n div 128"] by (subst encode_varint.simps) auto
qed

lemma length_encode_u32_message: "length (encode_u32_message v) \<le> 6"
proof -
  have "unat v < 128 ^ Suc 4" by (rule less_trans [OF u32_less]) simp
  from length_encode_varint [OF this] show ?thesis by (simp add: encode_u32_message_def)
qed

lemma decode_len_u32_message:
  "decode_len (encode_varint (length (encode_u32_message v)) @ encode_u32_message v)
     = Some (encode_u32_message v, [])"
proof -
  have "length (encode_u32_message v) < 128 ^ Suc 9"
    by (rule le_less_trans [OF length_encode_u32_message]) simp
  from decode_encode_varint [OF this] show ?thesis by (simp add: decode_len_def)
qed

lemma decode_encode_packet: "decode_packet (encode_packet p) = (Inr p, [])"
proof (cases "payload p")
  case None
  then show ?thesis
    by (cases p) (simp add: decode_packet_def encode_packet_def decode_payload.simps [of _ "[]"])
next
  case (Some pl)
  have keys: "decode_key (10 # rest) = Some (1, 2, rest)" "decode_key (18 # rest) = Some (2, 2, rest)"
    for rest by (simp_all add: decode_key_def decode_varint_small)
  have "decode_payload None (encode_packet p) = Some (Some pl)"
    using Some
    by (subst decode_payload.simps)
      (auto simp: encode_packet_def encode_message_field_def keys decode_len_u32_message
        merge_request_def merge_announcement_def decode_encode_u32_message
        decode_payload.simps [of _ "[]"] split: payload.splits)
  with Some show ?thesis by (cases p) (simp add: decode_packet_def)
qed

interpretation wire: packet_codec encode_packet decode_packet
proof unfold_locales
  show "rest = []" if "decode_packet b = (Inr m, rest)" for b m rest
    using that by (auto simp: decode_packet_def split: option.splits)
  show "decode_packet (encode_packet m) = (Inr m, [])" for m
    by (rule decode_encode_packet)
  show "encode_packet p \<noteq> []" if "payload p \<noteq> None" for p
    using that by (auto simp: encode_packet_def encode_message_field_def split: payload.splits)
qed

text \<open>
  The codec of \<^verbatim>\<open>Request\<close> and of \<^verbatim>\<open>Response\<close> on their own (the latter is the gRPC message): a
  message that holds defaults only has the empty encoding.
\<close>

definition decode_request :: "request message_decoder" where
  "decode_request bs =
     (case decode_u32_message 0 bs of
        None \<Rightarrow> (Inl (Prost_Error 0), [])
      | Some n \<Rightarrow> (Inr \<lparr>req_response_collector_port = n\<rparr>, []))"

interpretation wire_request: message_codec
    "\<lambda>r. encode_u32_message (req_response_collector_port r)" decode_request
  by unfold_locales (auto simp: decode_request_def decode_encode_u32_message split: option.splits)

section \<open>Properties\<close>

text \<open>
  C26: On the wire format of the schemas, the frame decoder gives back every packet that
  carries a message, with no bytes left, as a request or an announcement with its port and never as the
  other; a packet that carries none is no frame, although its encoding, the empty buffer, decodes.
\<close>

theorem packet_frame_roundtrip:
  "protobuf_decode decode_packet (encode_packet p) = (Inr (if payload p = None then None else Some p), []) \<and>
   (\<exists>q. protobuf_decode decode_packet (encode_packet (packet_from_request r)) = (Inr (Some q), []) \<and>
      unwrap_request q = Some r \<and> unwrap_response q = None) \<and>
   (\<exists>q. protobuf_decode decode_packet (encode_packet (packet_from_response s)) = (Inr (Some q), []) \<and>
      unwrap_response q = Some s \<and> unwrap_request q = None) \<and>
   decode_packet [] = (Inr \<lparr>payload = None\<rparr>, []) \<and> protobuf_decode decode_packet [] = (Inr None, [])"
proof (intro conjI)
  have empty: "encode_packet p = []" if "payload p = None" for p using that by (simp add: encode_packet_def)
  show "protobuf_decode decode_packet (encode_packet p) = (Inr (if payload p = None then None else Some p), [])"
    using wire.no_frame_of_empty_encoding [OF empty, of p] wire.frame_of_encoding [OF wire.oneof_written, of p]
    by simp
  show "decode_packet [] = (Inr \<lparr>payload = None\<rparr>, [])"
    using decode_encode_packet [of "\<lparr>payload = None\<rparr>"] by (simp add: encode_packet_def)
  show "protobuf_decode decode_packet [] = (Inr None, [])" by (simp add: protobuf_decode_def)
qed (simp_all add: wire.frame_of_request wire.frame_of_response)

text \<open>
  Every packet the program sends takes at least two and at most six bytes, whatever the port,
  so that it fits any datagram.
\<close>

theorem packets_small:
  "length (encode_packet (packet_from_request \<lparr>req_response_collector_port = into_u32 port\<rparr>)) \<in> {2..6} \<and>
   length (encode_packet (packet_from_response \<lparr>res_service_port = into_u32 port\<rparr>)) \<in> {2..6}"
proof -
  have "length (encode_varint (unat (into_u32 port))) \<le> 3"
    using length_encode_varint [of "unat port" 2] u16_less [of port] by simp
  then have "length (encode_u32_message (into_u32 port)) \<le> 4" by (simp add: encode_u32_message_def)
  then show ?thesis
    by (simp add: encode_packet_def encode_message_field_def packet_from_request_def
        packet_from_response_def encode_varint.simps [of "length (encode_u32_message (into_u32 port))"])
qed

end
