(* ===== verification/Task_Runtime.thy ===== *)
theory Task_Runtime
  imports Ip_Text Protocol "HOL-Library.Multiset"
begin

text \<open>
  What the program runs on. An \<^verbatim>\<open>async fn\<close> is a \<open>task\<close>: a sequence of atomic steps
  between suspension points, each a function of the \<open>world\<close>. The world holds the trace of
  the calls made to the operating system and to the gRPC transport so far, and their answers
  as arbitrary functions of that trace, so a statement about every world is a statement about
  every behaviour of the system below the program. A task has finitely many steps, as the bodies modelled
  have, whose loops run over lists; loops of the program that may not end are not tasks: they are step relations
  (\<open>For_Each\<close>, \<open>Server\<close>, \<open>Process_Pipes\<close>) or streams (\<open>Udp\<close>, \<open>Packet\<close>).
\<close>

section \<open>Calls and answers\<close>

datatype stdio = Piped | Null | Inherit

record command =
  cmd_program :: string
  cmd_args :: "string list"
  cmd_envs :: "(string \<times> string) list"
  cmd_stdin :: stdio
  cmd_stdout :: stdio
  cmd_stderr :: stdio

record child =
  child_pid :: nat
  child_stdin :: "nat option"
  child_stdout :: "nat option"

datatype transport_error = Transport_Error int

datatype grpc_code = Invalid_Argument | Unimplemented | Unavailable | Other_Code nat

record status =
  status_code :: grpc_code
  status_message :: string

text \<open>A connected client: the address it was connected to, and a number.\<close>

type_synonym grpc_client = "string \<times> nat"

datatype event =
    Ev_Udp_Bind sockaddr_v6 "(io_error, nat) result"
  | Ev_Local_Addr nat "(io_error, sockaddr_v6) result"
  | Ev_Join_Multicast nat ipv6_addr u32 "(io_error, unit) result"
  | Ev_Set_Multicast_Loop nat bool "(io_error, unit) result"
  | Ev_Send_To nat "byte list" sockaddr_v6 "(io_error, nat) result"
  | Ev_Tcp_Bind sockaddr_v6 "(io_error, nat) result"
  | Ev_Tcp_Local_Addr nat "(io_error, sockaddr_v6) result"
  | Ev_Spawn command "(io_error, child) result"
  | Ev_Write_All nat "byte list" "(io_error, unit) result"
  | Ev_Close nat
  | Ev_Wait nat "(io_error, bool) result"
  | Ev_Read_To_End nat "(io_error, byte list) result"
  | Ev_Connect string "(transport_error, grpc_client) result"
  | Ev_Submit grpc_client response "(status, unit) result"

record os =
  os_udp_bind :: "event list \<Rightarrow> sockaddr_v6 \<Rightarrow> (io_error, nat) result"
  os_local_addr :: "event list \<Rightarrow> nat \<Rightarrow> (io_error, sockaddr_v6) result"
  os_join_multicast :: "event list \<Rightarrow> nat \<Rightarrow> ipv6_addr \<Rightarrow> u32 \<Rightarrow> (io_error, unit) result"
  os_set_multicast_loop :: "event list \<Rightarrow> nat \<Rightarrow> bool \<Rightarrow> (io_error, unit) result"
  os_send_to :: "event list \<Rightarrow> nat \<Rightarrow> byte list \<Rightarrow> sockaddr_v6 \<Rightarrow> (io_error, nat) result"
  os_tcp_bind :: "event list \<Rightarrow> sockaddr_v6 \<Rightarrow> (io_error, nat) result"
  os_tcp_local_addr :: "event list \<Rightarrow> nat \<Rightarrow> (io_error, sockaddr_v6) result"
  os_spawn :: "event list \<Rightarrow> command \<Rightarrow> (io_error, child) result"
  os_write_all :: "event list \<Rightarrow> nat \<Rightarrow> byte list \<Rightarrow> (io_error, unit) result"
  os_wait :: "event list \<Rightarrow> nat \<Rightarrow> (io_error, bool) result"
  os_read_to_end :: "event list \<Rightarrow> nat \<Rightarrow> (io_error, byte list) result"
  os_connect :: "event list \<Rightarrow> string \<Rightarrow> (transport_error, nat) result"
  os_submit :: "event list \<Rightarrow> grpc_client \<Rightarrow> response \<Rightarrow> (status, unit) result"

text \<open>\<open>log_debug\<close> is whether \<^verbatim>\<open>log::debug!\<close> is enabled, for then it evaluates its arguments.\<close>

record world =
  trace :: "event list"
  os :: os
  log_debug :: bool

text \<open>The address \<^verbatim>\<open>[::]:0\<close>: any interface, a port of the system's choice.\<close>

definition wildcard_addr :: sockaddr_v6 where
  "wildcard_addr = socket_addr_v6 unspecified 0 0 0"

lemma wildcard_addr_text: "parse_sockaddr_v6 ''[::]:0'' = Some wildcard_addr"
proof -
  have "longest_zeros 0 [0, 0, 0, 0, 0, 0, 0, 0] (0, 0) (0, 0) = (0, 8)"
    by simp
  then have "show_sockaddr_v6 wildcard_addr = ''[::]:0''"
    by (simp add: show_sockaddr_v6_def wildcard_addr_def unspecified_def show_ipv6_def
        show_radix.simps [of 10 0])
  then show ?thesis
    using parse_show_sockaddr_v6 [of wildcard_addr]
    by (simp add: wildcard_addr_def socket_addr_v6_def)
qed

section \<open>Tasks\<close>

datatype 'a task = Ret 'a | Act "world \<Rightarrow> 'a task \<times> world"

primrec task_bind :: "'a task \<Rightarrow> ('a \<Rightarrow> 'b task) \<Rightarrow> 'b task" where
  "task_bind (Ret x) k = k x"
| "task_bind (Act f) k = Act (\<lambda>w. map_prod (\<lambda>t. task_bind t k) id (f w))"

text \<open>
  \<^verbatim>\<open>t.await?\<close>: wait for the task, return early on its error (converted by \<open>conv\<close>, the
  \<^verbatim>\<open>From\<close> instance), go on with its value.
\<close>

definition try_await ::
  "('e \<Rightarrow> 'f) \<Rightarrow> ('e, 'a) result task \<Rightarrow> ('a \<Rightarrow> ('f, 'b) result task) \<Rightarrow> ('f, 'b) result task" where
  "try_await conv t k = task_bind t (\<lambda>r. case r of Inl e \<Rightarrow> Ret (Inl (conv e)) | Inr x \<Rightarrow> k x)"

text \<open>Running a task alone, to its end.\<close>

primrec exec :: "'a task \<Rightarrow> world \<Rightarrow> 'a \<times> world" where
  "exec (Ret x) = (\<lambda>w. (x, w))"
| "exec (Act f) = (\<lambda>w. case map_prod exec id (f w) of (run, w') \<Rightarrow> run w')"

text \<open>Running the first \<open>n\<close> steps only.\<close>

fun step_task :: "'a task \<Rightarrow> world \<Rightarrow> 'a task \<times> world" where
  "step_task (Ret x) w = (Ret x, w)"
| "step_task (Act f) w = f w"

fun run_steps :: "nat \<Rightarrow> 'a task \<Rightarrow> world \<Rightarrow> 'a task \<times> world" where
  "run_steps 0 t w = (t, w)"
| "run_steps (Suc n) t w = (case step_task t w of (t', w') \<Rightarrow> run_steps n t' w')"

named_theorems exec_simps "running tasks"

lemma exec_Ret [simp, exec_simps]: "exec (Ret x) w = (x, w)"
  by simp

lemma exec_Act [exec_simps]: "exec (Act f) w = (case f w of (t, w') \<Rightarrow> exec t w')"
  by (cases "f w") simp

declare exec.simps(2) [simp del]

lemma task_induct [case_names Ret Act]:
  assumes "\<And>x. P (Ret x)"
    and "\<And>f. (\<And>w t w'. f w = (t, w') \<Longrightarrow> P t) \<Longrightarrow> P (Act f)"
  shows "P t"
proof (induction t)
  case (Ret x)
  show ?case by (rule assms(1))
next
  case (Act f)
  show ?case
  proof (rule assms(2))
    fix w t w' assume "f w = (t, w')"
    then have "(t, w') \<in> range f" by (metis rangeI)
    then show "P t" by (rule Act.IH) (simp add: fsts.simps)
  qed
qed

lemma task_bind_assoc:
  "task_bind (task_bind t k1) k2 = task_bind t (\<lambda>x. task_bind (k1 x) k2)"
proof (induction t rule: task_induct)
  case (Act f)
  have "map_prod (\<lambda>t. task_bind (task_bind t k1) k2) id (f w)
      = map_prod (\<lambda>t. task_bind t (\<lambda>x. task_bind (k1 x) k2)) id (f w)" for w
    using Act [of w] by (cases "f w") auto
  then show ?case by (simp add: map_prod_def split_beta)
qed simp

lemma try_await_bind:
  "try_await conv (task_bind t k1) k2 = task_bind t (\<lambda>x. try_await conv (k1 x) k2)"
  by (simp add: try_await_def task_bind_assoc)

lemma try_await_Ret [simp]:
  "try_await conv (Ret (Inl e)) k = Ret (Inl (conv e))"
  "try_await conv (Ret (Inr v)) k = k v"
  by (simp_all add: try_await_def)

lemma try_await_assoc:
  "try_await c2 (try_await c1 t k1) k2 = try_await (c2 \<circ> c1) t (\<lambda>x. try_await c2 (k1 x) k2)"
  unfolding try_await_def task_bind_assoc
  by (rule arg_cong [where f = "task_bind t"]) (auto split: sum.split)

lemma exec_bind [exec_simps]:
  "exec (task_bind t k) w = (case exec t w of (x, w') \<Rightarrow> exec (k x) w')"
proof (induction t arbitrary: w rule: task_induct)
  case (Act f)
  then show ?case by (cases "f w") (simp add: exec_Act)
qed simp

lemma exec_try_await [exec_simps]:
  "exec (try_await conv t k) w =
     (case exec t w of (Inl e, w') \<Rightarrow> (Inl (conv e), w') | (Inr x, w') \<Rightarrow> exec (k x) w')"
  by (auto simp: try_await_def exec_bind split: prod.splits sum.splits)

text \<open>Every task ends: after enough steps it has returned what \<open>exec\<close> says.\<close>

lemma run_steps_Ret [simp]: "run_steps n (Ret x) w = (Ret x, w)"
  by (induction n) auto

lemma run_steps_exec: "\<exists>n. run_steps n t w = (Ret (fst (exec t w)), snd (exec t w))"
proof (induction t arbitrary: w rule: task_induct)
  case (Ret x)
  show ?case by simp
next
  case (Act f)
  obtain t w' where f: "f w = (t, w')" by (cases "f w")
  obtain n where "run_steps n t w' = (Ret (fst (exec t w')), snd (exec t w'))"
    using Act.IH [OF f] by blast
  then have "run_steps (Suc n) (Act f) w = (Ret (fst (exec (Act f) w)), snd (exec (Act f) w))"
    by (simp add: f exec_Act)
  then show ?case ..
qed

lemma run_steps_add: 
  "run_steps (m + n) t w = (case run_steps m t w of (t', w') \<Rightarrow> run_steps n t' w')"
  by (induction m arbitrary: t w) (auto split: prod.splits)

lemma run_steps_returned: "run_steps n t w = (Ret x, w') \<Longrightarrow> exec t w = (x, w')"
proof (induction n arbitrary: t w)
  case (Suc n)
  then show ?case
    by (cases t) (auto simp: exec_Act split: prod.splits)
qed auto

section \<open>Single calls\<close>

definition syscall :: "(world \<Rightarrow> 'r) \<Rightarrow> ('r \<Rightarrow> event) \<Rightarrow> 'r task" where
  "syscall ask ev = Act (\<lambda>w. let r = ask w in (Ret r, w\<lparr>trace := trace w @ [ev r]\<rparr>))"

lemma exec_syscall [exec_simps]:
  "exec (syscall ask ev) w = (ask w, w\<lparr>trace := trace w @ [ev (ask w)]\<rparr>)"
  by (simp add: syscall_def exec_Act Let_def)

definition udp_bind :: "sockaddr_v6 \<Rightarrow> (io_error, nat) result task" where
  "udp_bind a = syscall (\<lambda>w. os_udp_bind (os w) (trace w) a) (Ev_Udp_Bind a)"

definition local_addr :: "nat \<Rightarrow> (io_error, sockaddr_v6) result task" where
  "local_addr s = syscall (\<lambda>w. os_local_addr (os w) (trace w) s) (Ev_Local_Addr s)"

definition join_multicast_v6 :: "nat \<Rightarrow> ipv6_addr \<Rightarrow> u32 \<Rightarrow> (io_error, unit) result task" where
  "join_multicast_v6 s ip i =
     syscall (\<lambda>w. os_join_multicast (os w) (trace w) s ip i) (Ev_Join_Multicast s ip i)"

definition set_multicast_loop_v6 :: "nat \<Rightarrow> bool \<Rightarrow> (io_error, unit) result task" where
  "set_multicast_loop_v6 s b =
     syscall (\<lambda>w. os_set_multicast_loop (os w) (trace w) s b) (Ev_Set_Multicast_Loop s b)"

definition send_to :: "nat \<Rightarrow> byte list \<Rightarrow> sockaddr_v6 \<Rightarrow> (io_error, nat) result task" where
  "send_to s d a = syscall (\<lambda>w. os_send_to (os w) (trace w) s d a) (Ev_Send_To s d a)"

definition tcp_bind :: "sockaddr_v6 \<Rightarrow> (io_error, nat) result task" where
  "tcp_bind a = syscall (\<lambda>w. os_tcp_bind (os w) (trace w) a) (Ev_Tcp_Bind a)"

definition tcp_local_addr :: "nat \<Rightarrow> (io_error, sockaddr_v6) result task" where
  "tcp_local_addr s = syscall (\<lambda>w. os_tcp_local_addr (os w) (trace w) s) (Ev_Tcp_Local_Addr s)"

definition spawn :: "command \<Rightarrow> (io_error, child) result task" where
  "spawn c = syscall (\<lambda>w. os_spawn (os w) (trace w) c) (Ev_Spawn c)"

definition write_all :: "nat \<Rightarrow> byte list \<Rightarrow> (io_error, unit) result task" where
  "write_all h d = syscall (\<lambda>w. os_write_all (os w) (trace w) h d) (Ev_Write_All h d)"

definition close_pipe :: "nat \<Rightarrow> unit task" where
  "close_pipe h = syscall (\<lambda>w. ()) (\<lambda>_. Ev_Close h)"

definition wait_child :: "nat \<Rightarrow> (io_error, bool) result task" where
  "wait_child p = syscall (\<lambda>w. os_wait (os w) (trace w) p) (Ev_Wait p)"

definition read_to_end :: "nat \<Rightarrow> (io_error, byte list) result task" where
  "read_to_end h = syscall (\<lambda>w. os_read_to_end (os w) (trace w) h) (Ev_Read_To_End h)"

definition grpc_connect :: "string \<Rightarrow> (transport_error, grpc_client) result task" where
  "grpc_connect a = syscall (\<lambda>w. map_ok (Pair a) (os_connect (os w) (trace w) a)) (Ev_Connect a)"

definition grpc_submit_response :: "grpc_client \<Rightarrow> response \<Rightarrow> (status, unit) result task" where
  "grpc_submit_response c r = syscall (\<lambda>w. os_submit (os w) (trace w) c r) (Ev_Submit c r)"

definition debug_enabled :: "bool task" where
  "debug_enabled = Act (\<lambda>w. (Ret (log_debug w), w))"

lemma exec_debug_enabled [exec_simps]: "exec debug_enabled w = (log_debug w, w)"
  by (simp add: debug_enabled_def exec_Act)

lemmas call_defs = udp_bind_def local_addr_def join_multicast_v6_def set_multicast_loop_v6_def
  send_to_def tcp_bind_def tcp_local_addr_def spawn_def write_all_def close_pipe_def wait_child_def
  read_to_end_def grpc_connect_def grpc_submit_response_def

section \<open>A system on which every call succeeds\<close>

text \<open>Concrete worlds, on which the definitions can be run.\<close>

definition obliging_os :: os where
  "obliging_os =
     \<lparr>os_udp_bind = (\<lambda>_ _. Inr 1), os_local_addr = (\<lambda>_ _. Inr wildcard_addr),
      os_join_multicast = (\<lambda>_ _ _ _. Inr ()), os_set_multicast_loop = (\<lambda>_ _ _. Inr ()),
      os_send_to = (\<lambda>_ _ d _. Inr (length d)), os_tcp_bind = (\<lambda>_ _. Inr 2),
      os_tcp_local_addr = (\<lambda>_ _. Inr (set_port 4000 wildcard_addr)),
      os_spawn = (\<lambda>_ _. Inr \<lparr>child_pid = 10, child_stdin = Some 11, child_stdout = Some 12\<rparr>),
      os_write_all = (\<lambda>_ _ _. Inr ()), os_wait = (\<lambda>_ _. Inr True),
      os_read_to_end = (\<lambda>_ _. Inr [42]), os_connect = (\<lambda>_ _. Inr 3),
      os_submit = (\<lambda>_ _ _. Inr ())\<rparr>"

definition fresh_world :: world where
  "fresh_world = \<lparr>trace = [], os = obliging_os, log_debug = False\<rparr>"

lemmas fresh_world_defs = fresh_world_def obliging_os_def

end
