(* ===== verification/Concurrency.thy ===== *)
theory Concurrency
  imports Task_Runtime
begin

text \<open>
  Concurrent tasks. The combinators of \<^verbatim>\<open>futures_util\<close> are parameters of the model; what
  their documentation promises is stated here: \<open>joins\<close> is every run that
  \<^verbatim>\<open>try_join_all\<close> may make (its tasks interleaved step by step, the first error cancelling
  the rest). The lemmas say what a group of tasks leaves in the log of the world, whatever the
  interleaving.
\<close>

section \<open>Logs\<close>

text \<open>A log is a projection of the trace, such as the datagrams sent.\<close>

definition log_of :: "(event \<Rightarrow> 'b list) \<Rightarrow> world \<Rightarrow> 'b list" where
  "log_of proj w = concat (map proj (trace w))"

lemma log_of_extend [simp]:
  "log_of proj (w\<lparr>trace := trace w @ es\<rparr>) = log_of proj w @ concat (map proj es)"
  by (simp add: log_of_def)

text \<open>
  A task that, interleaved with whatever else runs, adds \<open>x\<close> to the log exactly when it
  succeeds; \<open>sent\<close> says whether it already has.
\<close>

inductive emits_once :: "(event \<Rightarrow> 'b list) \<Rightarrow> 'b \<Rightarrow> bool \<Rightarrow> ('e, 'a) result task \<Rightarrow> bool"
  for proj x where
  failed: "emits_once proj x False (Ret (Inl e))"
| completed: "emits_once proj x True (Ret (Inr v))"
| act: "(\<And>w. \<exists>sent'. emits_once proj x sent' (fst (f w)) \<and> (sent \<longrightarrow> sent') \<and>
      log_of proj (snd (f w)) = log_of proj w @ (if sent' \<and> \<not> sent then [x] else []))
    \<Longrightarrow> emits_once proj x sent (Act f)"

inductive_cases emits_once_ErrE [elim!]: "emits_once proj x sent (Ret (Inl e))"
inductive_cases emits_once_OkE [elim!]: "emits_once proj x sent (Ret (Inr v))"
inductive_cases emits_once_ActE: "emits_once proj x sent (Act f)"

lemma emits_once_step:
  assumes "emits_once proj x sent (Act f)" and "f w = (t, w')"
  obtains sent' where "emits_once proj x sent' t" and "sent \<longrightarrow> sent'"
    and "log_of proj w' = log_of proj w @ (if sent' \<and> \<not> sent then [x] else [])"
  using assms by (elim emits_once_ActE) (metis fst_conv snd_conv)

lemma emits_once_exec:
  assumes "emits_once proj x sent t" and "exec t w = (r, w')"
  shows "log_of proj w' = log_of proj w @ (if isl r \<or> sent then [] else [x]) \<and> (sent \<longrightarrow> \<not> isl r)"
  using assms
proof (induction t arbitrary: sent w rule: task_induct)
  case (Ret x)
  then show ?case by (cases x) auto
next
  case (Act f)
  obtain t w1 where f: "f w = (t, w1)" by (cases "f w")
  obtain sent' where sent': "emits_once proj x sent' t" "sent \<longrightarrow> sent'"
    "log_of proj w1 = log_of proj w @ (if sent' \<and> \<not> sent then [x] else [])"
    using Act.prems(1) f by (rule emits_once_step)
  have "exec t w1 = (r, w')" using Act.prems(2) f by (simp add: exec_Act)
  from Act.IH [OF f sent'(1) this] sent'(2,3) show ?case by auto
qed

text \<open>A call whose error returns early: quiet, or the one that adds to the log.\<close>

lemma try_await_syscall:
  "try_await conv (syscall ask ev) k =
     Act (\<lambda>w. (case ask w of Inl e \<Rightarrow> Ret (Inl (conv e)) | Inr v \<Rightarrow> k v,
             w\<lparr>trace := trace w @ [ev (ask w)]\<rparr>))"
  by (simp add: try_await_def syscall_def Let_def)

lemma emits_once_quiet_await:
  assumes "\<And>r. proj (ev r) = []" and "\<And>v. emits_once proj x False (k v)"
  shows "emits_once proj x False (try_await conv (syscall ask ev) k)"
  unfolding try_await_syscall
  by (rule emits_once.act, rule exI [of _ False])
    (use assms in \<open>auto intro: emits_once.failed split: sum.split\<close>)

lemma emits_once_emit_await:
  assumes "\<And>e. proj (ev (Inl e)) = []" and "\<And>v. proj (ev (Inr v)) = [x]"
    and "\<And>v. emits_once proj x True (k v)"
  shows "emits_once proj x False (try_await conv (syscall ask ev) k)"
  unfolding try_await_syscall
proof (rule emits_once.act, rule exI)
  fix w
  show "emits_once proj x (\<not> isl (ask w))
      (fst (case ask w of Inl e \<Rightarrow> Ret (Inl (conv e)) | Inr v \<Rightarrow> k v,
         w\<lparr>trace := trace w @ [ev (ask w)]\<rparr>)) \<and>
    (False \<longrightarrow> \<not> isl (ask w)) \<and>
    log_of proj (snd (case ask w of Inl e \<Rightarrow> Ret (Inl (conv e)) | Inr v \<Rightarrow> k v,
         w\<lparr>trace := trace w @ [ev (ask w)]\<rparr>))
      = log_of proj w @ (if \<not> isl (ask w) \<and> \<not> False then [x] else [])"
    using assms by (cases "ask w") (auto intro: emits_once.failed)
qed

section \<open>try\_join\_all\<close>

inductive joins ::
  "('e, 'a) result task list \<Rightarrow> world \<Rightarrow> ('e, 'a list) result \<Rightarrow> world \<Rightarrow> bool" where
  all_ok: "joins (map (\<lambda>v. Ret (Inr v)) vs) w (Inr vs) w"
| one_err: "Ret (Inl e) \<in> set ts \<Longrightarrow> joins ts w (Inl e) w"
| step: "i < length ts \<Longrightarrow> ts ! i = Act f \<Longrightarrow> f w = (t, w1) \<Longrightarrow> joins (ts[i := t]) w1 r w' \<Longrightarrow>
    joins ts w r w'"

text \<open>The elements of tasks that have not sent yet.\<close>

definition pending :: "('b \<times> bool) list \<Rightarrow> 'b multiset" where
  "pending xbs = mset (map fst (filter (\<lambda>(x, sent). \<not> sent) xbs))"

lemma pending_update:
  assumes "i < length xbs" and "xbs ! i = (x, sent)" and "sent \<longrightarrow> sent'"
  shows "pending xbs = (if sent' \<and> \<not> sent then {#x#} else {#}) + pending (xbs[i := (x, sent')])"
proof -
  have "xbs = take i xbs @ (x, sent) # drop (Suc i) xbs"
    using assms(1,2) id_take_nth_drop by metis
  moreover have "xbs[i := (x, sent')] = take i xbs @ (x, sent') # drop (Suc i) xbs"
    using assms(1) by (simp add: upd_conv_take_nth_drop)
  ultimately have "pending xbs = pending (take i xbs @ (x, sent) # drop (Suc i) xbs)"
    and "pending (xbs[i := (x, sent')]) = pending (take i xbs @ (x, sent') # drop (Suc i) xbs)"
    by simp_all
  then show ?thesis using assms(3) by (auto simp: pending_def)
qed

lemma pending_all_sent:
  assumes "list_all2 (\<lambda>(x, sent) t. emits_once proj x sent t) xbs
    (map (\<lambda>v. Ret (Inr v) :: ('e, 'a) result task) vs)"
  shows "pending xbs = {#}"
  using assms
proof (induction vs arbitrary: xbs)
  case Nil
  then show ?case by (simp add: pending_def)
next
  case (Cons v vs)
  then obtain xb xbs' where xbs: "xbs = xb # xbs'" by (cases xbs) auto
  obtain x sent where xb: "xb = (x, sent)" by (cases xb)
  have "emits_once proj x sent (Ret (Inr v) :: ('e, 'a) result task)"
    using Cons.prems xbs xb by simp
  then have "sent" by blast
  moreover have "pending xbs' = {#}" using Cons.IH Cons.prems xbs by simp
  ultimately show ?case using xbs xb by (simp add: pending_def)
qed

lemma joins_emits:
  assumes "joins ts w r w'"
    and "list_all2 (\<lambda>(x, sent) t. emits_once proj x sent t) xbs ts"
  shows "\<exists>zs. log_of proj w' = log_of proj w @ zs \<and> mset zs \<subseteq># pending xbs \<and>
    (\<not> isl r \<longrightarrow> mset zs = pending xbs)"
  using assms
proof (induction arbitrary: xbs rule: joins.induct)
  case (all_ok vs w)
  then show ?case using pending_all_sent by fastforce
next
  case (one_err e ts w)
  then show ?case by simp
next
  case (step i ts f w t w1 r w')
  obtain x sent where xb: "xbs ! i = (x, sent)" by (cases "xbs ! i")
  have len: "length xbs = length ts" using step.prems by (rule list_all2_lengthD)
  have "emits_once proj x sent (Act f)"
    using list_all2_nthD2 [OF step.prems step.hyps(1)] xb step.hyps(2) by simp
  then obtain sent' where sent': "emits_once proj x sent' t" "sent \<longrightarrow> sent'"
    "log_of proj w1 = log_of proj w @ (if sent' \<and> \<not> sent then [x] else [])"
    using step.hyps(3) by (rule emits_once_step)
  have "list_all2 (\<lambda>(x, sent) t. emits_once proj x sent t) (xbs[i := (x, sent')]) (ts[i := t])"
    using step.prems sent'(1) by (intro list_all2_update_cong) simp_all
  then obtain zs where zs: "log_of proj w' = log_of proj w1 @ zs"
    "mset zs \<subseteq># pending (xbs[i := (x, sent')])"
    "\<not> isl r \<longrightarrow> mset zs = pending (xbs[i := (x, sent')])"
    using step.IH by blast
  let ?z = "if sent' \<and> \<not> sent then [x] else []"
  have "pending xbs = mset ?z + pending (xbs[i := (x, sent')])"
    using pending_update [OF _ xb sent'(2)] step.hyps(1) len by simp
  with zs sent'(3) have "log_of proj w' = log_of proj w @ (?z @ zs) \<and>
      mset (?z @ zs) \<subseteq># pending xbs \<and> (\<not> isl r \<longrightarrow> mset (?z @ zs) = pending xbs)"
    by auto
  then show ?case by blast
qed

text \<open>The contract of \<^verbatim>\<open>try_join_all\<close>: each run of it is an interleaving of its tasks.\<close>

locale try_join_all_contract =
  fixes join_all :: "('e, 'a) result task list \<Rightarrow> ('e, 'a list) result task"
  assumes join_all_runs: "exec (join_all ts) w = (r, w') \<Longrightarrow> joins ts w r w'"
begin

lemma join_all_emits:
  assumes "exec (join_all (map f xs)) w = (r, w')"
    and "\<And>x. x \<in> set xs \<Longrightarrow> emits_once proj (g x) False (f x)"
  shows "\<exists>zs. log_of proj w' = log_of proj w @ zs \<and> mset zs \<subseteq># mset (map g xs) \<and>
    (\<not> isl r \<longrightarrow> mset zs = mset (map g xs))"
proof -
  let ?xbs = "map (\<lambda>x. (g x, False)) xs"
  have "list_all2 (\<lambda>(x, sent) t. emits_once proj x sent t) ?xbs (map f xs)"
    using assms(2) by (simp add: list_all2_conv_all_nth)
  moreover have "pending ?xbs = mset (map g xs)"
    by (simp add: pending_def filter_map o_def)
  ultimately show ?thesis
    using joins_emits [OF join_all_runs [OF assms(1)]] by fastforce
qed

end

text \<open>One scheduler that meets the contract: each task in turn, to its end.\<close>

fun join_in_order :: "('e, 'a) result task list \<Rightarrow> ('e, 'a list) result task" where
  "join_in_order [] = Ret (Inr [])"
| "join_in_order (t # ts) =
     try_await id t (\<lambda>v. try_await id (join_in_order ts) (\<lambda>vs. Ret (Inr (v # vs))))"

lemma joins_run_one:
  "exec t w = (r, w1) \<Longrightarrow> i < length ts \<Longrightarrow> ts ! i = t \<Longrightarrow> joins (ts[i := Ret r]) w1 R w' \<Longrightarrow>
     joins ts w R w'"
proof (induction t arbitrary: w ts rule: task_induct)
  case (Ret x)
  then show ?case by (metis exec_Ret list_update_id prod.inject)
next
  case (Act f)
  obtain t w2 where f: "f w = (t, w2)" by (cases "f w")
  have "joins (ts[i := t]) w2 R w'"
    by (rule Act.IH [OF f]) (use Act.prems f in \<open>auto simp: exec_Act\<close>)
  with Act.prems f show ?case by (blast intro: joins.step)
qed

lemma join_in_order_joins:
  "exec (join_in_order ts) w = (r, w') \<Longrightarrow>
     joins (map (\<lambda>v. Ret (Inr v)) vs @ ts) w (map_ok (\<lambda>us. vs @ us) r) w'"
proof (induction ts arbitrary: vs w r w')
  case Nil
  then show ?case using joins.all_ok [of vs w] by (auto simp: map_ok_def)
next
  case (Cons t ts)
  let ?done = "map (\<lambda>v. Ret (Inr v)) vs"
  obtain r1 w1 where t: "exec t w = (r1, w1)" by (cases "exec t w")
  have "joins (?done @ Ret r1 # ts) w1 (map_ok (\<lambda>us. vs @ us) r) w'"
  proof (cases r1)
    case (Inl e)
    have "joins (?done @ Ret r1 # ts) w1 (Inl e) w1" by (rule joins.one_err) (simp add: Inl)
    with Cons.prems t Inl show ?thesis by (auto simp: exec_simps map_ok_def)
  next
    case (Inr v)
    obtain r2 w2 where ts: "exec (join_in_order ts) w1 = (r2, w2)" by (cases "exec (join_in_order ts) w1")
    have "joins (map (\<lambda>v. Ret (Inr v)) (vs @ [v]) @ ts) w1 (map_ok (\<lambda>us. (vs @ [v]) @ us) r2) w2"
      using ts by (rule Cons.IH)
    moreover have "w2 = w' \<and> map_ok (\<lambda>us. (vs @ [v]) @ us) r2 = map_ok (\<lambda>us. vs @ us) r"
      using Cons.prems t ts Inr by (cases r2) (auto simp: exec_simps map_ok_def)
    ultimately show ?thesis using Inr by simp
  qed
  then have "joins ((?done @ t # ts)[length vs := Ret r1]) w1 (map_ok (\<lambda>us. vs @ us) r) w'"
    by (simp add: list_update_append)
  then show ?case
    by (intro joins_run_one [OF t, of "length vs"]) (simp_all add: nth_append)
qed

lemma map_ok_ident [simp]: "map_ok (\<lambda>x. x) r = r"
  by (simp add: map_ok_def split: sum.split)

interpretation in_order: try_join_all_contract join_in_order
proof unfold_locales
  show "joins ts w r w'" if "exec (join_in_order ts) w = (r, w')" for ts w r w'
    using join_in_order_joins [OF that, of "[]"] by simp
qed

end
