(* ===== verification/For_Each.thy ===== *)
theory For_Each
  imports Concurrency
begin

text \<open>
  A stream handled item by item, concurrently, as the server does with the packets it
  receives: the steps that the documentation of \<^verbatim>\<open>try_for_each_concurrent\<close> allows, what
  the handlers leave in the log, why the loop ends, and that it can always make progress.
\<close>

section \<open>try\_for\_each\_concurrent\<close>

text \<open>
  \<^verbatim>\<open>TryStreamExt::try_for_each_concurrent\<close> without a limit: each item of the stream starts
  a handler, the handlers run interleaved with each other and with the arrival of items, and
  the first error, of the stream or of a handler, ends it. The state is whether the stream has
  ended and the handlers at work.
\<close>

datatype ('e, 'i) stream_event = Yield "('e, 'i) result" | Stream_End

datatype 'e for_each = Running bool "('e, unit) result task list" | Returned "('e, unit) result"

inductive fec_step ::
  "('i \<Rightarrow> ('e, unit) result task) \<Rightarrow> 'e for_each \<times> world \<Rightarrow> ('e, 'i) stream_event option \<Rightarrow>
   'e for_each \<times> world \<Rightarrow> bool" for handle where
  item: "fec_step handle (Running False pool, w) (Some (Yield (Inr i)))
    (Running False (pool @ [handle i]), w)"
| item_err: "fec_step handle (Running False pool, w) (Some (Yield (Inl e))) (Returned (Inl e), w)"
| stream_end: "fec_step handle (Running False pool, w) (Some Stream_End) (Running True pool, w)"
| handler: "i < length pool \<Longrightarrow> pool ! i = Act f \<Longrightarrow> f w = (t, w') \<Longrightarrow>
    fec_step handle (Running b pool, w) None (Running b (pool[i := t]), w')"
| handler_done: "fec_step handle (Running b (pool1 @ Ret (Inr ()) # pool2), w) None
    (Running b (pool1 @ pool2), w)"
| handler_err: "Ret (Inl e) \<in> set pool \<Longrightarrow>
    fec_step handle (Running b pool, w) None (Returned (Inl e), w)"
| finished: "fec_step handle (Running True [], w) None (Returned (Inr ()), w)"

inductive_cases fec_step_RunningE: "fec_step handle (Running b pool, w) l (s', w')"
inductive_simps fec_step_Returned [simp]: "fec_step handle (Returned r, w) l c"

text \<open>A task that adds at most the given element to the log.\<close>

inductive emits_upto :: "(event \<Rightarrow> 'b list) \<Rightarrow> 'b option \<Rightarrow> 'a task \<Rightarrow> bool" for proj where
  ret: "emits_upto proj x (Ret v)"
| act: "(\<And>w. \<exists>x'. emits_upto proj x' (fst (f w)) \<and>
      (x' = x \<and> log_of proj (snd (f w)) = log_of proj w \<or>
       (\<exists>y. x = Some y \<and> x' = None \<and> log_of proj (snd (f w)) = log_of proj w @ [y])))
    \<Longrightarrow> emits_upto proj x (Act f)"

inductive_cases emits_upto_ActE: "emits_upto proj x (Act f)"

lemma emits_upto_step:
  assumes "emits_upto proj x (Act f)" and "f w = (t, w')"
  obtains "emits_upto proj x t" and "log_of proj w' = log_of proj w"
  | y where "x = Some y" and "emits_upto proj None t" and "log_of proj w' = log_of proj w @ [y]"
  using assms by (elim emits_upto_ActE) (metis fst_conv snd_conv)

lemma emits_once_upto:
  "emits_once proj x sent t \<Longrightarrow>
     emits_upto proj (if sent then None else Some x) (task_bind t (\<lambda>r. Ret (g r)))"
proof (induction t arbitrary: sent rule: task_induct)
  case (Ret r)
  show ?case by (simp add: emits_upto.ret)
next
  case (Act f)
  show ?case
    unfolding task_bind.simps
  proof (rule emits_upto.act)
    fix w
    obtain t w' where f: "f w = (t, w')" by (cases "f w")
    obtain sent' where sent': "emits_once proj x sent' t" "sent \<longrightarrow> sent'"
      "log_of proj w' = log_of proj w @ (if sent' \<and> \<not> sent then [x] else [])"
      using Act.prems f by (rule emits_once_step)
    have "emits_upto proj (if sent' then None else Some x) (task_bind t (\<lambda>r. Ret (g r)))"
      by (rule Act.IH [OF f sent'(1)])
    then show "\<exists>x'. emits_upto proj x' (fst (map_prod (\<lambda>t. task_bind t (\<lambda>r. Ret (g r))) id (f w))) \<and>
      (x' = (if sent then None else Some x) \<and>
         log_of proj (snd (map_prod (\<lambda>t. task_bind t (\<lambda>r. Ret (g r))) id (f w))) = log_of proj w \<or>
       (\<exists>y. (if sent then None else Some x) = Some y \<and> x' = None \<and>
         log_of proj (snd (map_prod (\<lambda>t. task_bind t (\<lambda>r. Ret (g r))) id (f w))) = log_of proj w @ [y]))"
      using f sent'(2,3) by (intro exI [of _ "if sent' then None else Some x"]) auto
  qed
qed

text \<open>A task that cannot fail.\<close>

inductive never_fails :: "('e, 'a) result task \<Rightarrow> bool" where
  ret: "never_fails (Ret (Inr v))"
| act: "(\<And>w. never_fails (fst (f w))) \<Longrightarrow> never_fails (Act f)"

inductive_cases never_fails_ErrE [elim!]: "never_fails (Ret (Inl e))"
inductive_cases never_fails_ActE: "never_fails (Act f)"

lemma never_fails_step: "never_fails (Act f) \<Longrightarrow> f w = (t, w') \<Longrightarrow> never_fails t"
  by (elim never_fails_ActE) (metis fst_conv)

lemma never_fails_bind: "(\<And>x. never_fails (k x)) \<Longrightarrow> never_fails (task_bind t k)"
proof (induction t rule: task_induct)
  case (Act f)
  have "never_fails (fst (map_prod (\<lambda>t. task_bind t k) id (f w)))" for w
    using Act by (cases "f w") auto
  then show ?case by (simp add: never_fails.act)
qed simp

text \<open>Runs, with the stream events consumed.\<close>

inductive fec_run ::
  "('i \<Rightarrow> ('e, unit) result task) \<Rightarrow> 'e for_each \<times> world \<Rightarrow> ('e, 'i) stream_event list \<Rightarrow>
   'e for_each \<times> world \<Rightarrow> bool" for handle c where
  start: "fec_run handle c [] c"
| silent: "fec_run handle c evs c' \<Longrightarrow> fec_step handle c' None c'' \<Longrightarrow> fec_run handle c evs c''"
| event: "fec_run handle c evs c' \<Longrightarrow> fec_step handle c' (Some ev) c'' \<Longrightarrow> fec_run handle c (evs @ [ev]) c''"

fun yielded :: "('e, 'i) stream_event \<Rightarrow> 'i option" where
  "yielded (Yield (Inr i)) = Some i"
| "yielded _ = None"

abbreviation yields :: "('e, 'i) stream_event list \<Rightarrow> 'i list" where
  "yields evs \<equiv> List.map_filter yielded evs"

text \<open>
  What the handlers leave in the log: at most one element for each item. \<open>credits\<close> are the
  elements that the handlers at work may still add.
\<close>

fun credits :: "(event \<Rightarrow> 'b list) \<Rightarrow> 'e for_each \<Rightarrow> 'b multiset \<Rightarrow> bool" where
  "credits proj (Running b pool) M \<longleftrightarrow>
     (\<exists>xs. list_all2 (emits_upto proj) xs pool \<and> M = mset (List.map_filter id xs))"
| "credits proj (Returned r) M \<longleftrightarrow> M = {#}"

definition log_bound :: "(event \<Rightarrow> 'b list) \<Rightarrow> world \<Rightarrow> 'b multiset \<Rightarrow> 'e for_each \<times> world \<Rightarrow> bool" where
  "log_bound proj w0 E c \<longleftrightarrow>
     (\<exists>zs M. log_of proj (snd c) = log_of proj w0 @ zs \<and> credits proj (fst c) M \<and> mset zs + M \<subseteq># E)"

lemma mset_map_filter_update:
  assumes "i < length xs" and "xs ! i = Some y"
  shows "mset (List.map_filter id xs) = add_mset y (mset (List.map_filter id (xs[i := None])))"
proof -
  have "xs = take i xs @ Some y # drop (Suc i) xs"
    using assms id_take_nth_drop by metis
  moreover have "xs[i := None] = take i xs @ None # drop (Suc i) xs"
    using assms(1) by (simp add: upd_conv_take_nth_drop)
  ultimately have "List.map_filter id xs = List.map_filter id (take i xs @ Some y # drop (Suc i) xs)"
    and "List.map_filter id (xs[i := None]) = List.map_filter id (take i xs @ None # drop (Suc i) xs)"
    by simp_all
  then show ?thesis by simp
qed

lemma subset_mset_left: "A + B \<subseteq># C \<Longrightarrow> A \<subseteq># C"
  by (metis mset_subset_eq_add_left subset_mset.order_trans)

lemma log_boundE:
  assumes "log_bound proj w0 E (Running b pool, w)"
  obtains zs xs where "log_of proj w = log_of proj w0 @ zs" "list_all2 (emits_upto proj) xs pool"
    "mset zs + mset (List.map_filter id xs) \<subseteq># E"
  using assms by (auto simp: log_bound_def)

lemma log_bound_RunningI:
  assumes "log_of proj w = log_of proj w0 @ zs" and "list_all2 (emits_upto proj) xs pool"
    and "mset zs + mset (List.map_filter id xs) \<subseteq># E"
  shows "log_bound proj w0 E (Running b pool, w)"
  unfolding log_bound_def
  by (rule exI [of _ zs], rule exI [of _ "mset (List.map_filter id xs)"]) (use assms in auto)

lemma log_bound_log: "log_bound proj w0 E (s, w) \<Longrightarrow> \<exists>zs. log_of proj w = log_of proj w0 @ zs \<and> mset zs \<subseteq># E"
  by (auto simp: log_bound_def dest: subset_mset_left)

lemma log_bound_Returned:
  assumes "log_bound proj w0 E (s, w)"
  shows "log_bound proj w0 E (Returned r, w)"
  using log_bound_log [OF assms] by (auto simp: log_bound_def)

lemma log_bound_mono:
  assumes "log_bound proj w0 E c" and "E \<subseteq># E'"
  shows "log_bound proj w0 E' c"
  using assms unfolding log_bound_def by (meson subset_mset.order_trans)

lemma log_bound_silent:
  assumes "fec_step handle c None c'" and "log_bound proj w0 E c"
  shows "log_bound proj w0 E c'"
  using assms(1)
proof (cases rule: fec_step.cases)
  case (handler i pool f w t w' b)
  obtain zs xs where zs: "log_of proj w = log_of proj w0 @ zs"
    and xs: "list_all2 (emits_upto proj) xs pool" and bound: "mset zs + mset (List.map_filter id xs) \<subseteq># E"
    using assms(2) unfolding handler(1) by (rule log_boundE)
  have len: "i < length xs" using handler(3) xs by (simp add: list_all2_lengthD)
  have "emits_upto proj (xs ! i) (Act f)"
    using list_all2_nthD2 [OF xs handler(3)] handler(4) by simp
  then show ?thesis
    using handler(5)
  proof (cases rule: emits_upto_step)
    case 1
    then have "list_all2 (emits_upto proj) xs (pool[i := t])"
      using list_all2_update_cong [OF xs, of "xs ! i" t i] by simp
    with zs bound 1 handler(2) show ?thesis by (auto intro: log_bound_RunningI)
  next
    case (2 y)
    have "list_all2 (emits_upto proj) (xs[i := None]) (pool[i := t])"
      using xs 2(2) by (intro list_all2_update_cong)
    moreover have "mset (zs @ [y]) + mset (List.map_filter id (xs[i := None])) \<subseteq># E"
      using bound mset_map_filter_update [OF len 2(1)] by simp
    moreover have "log_of proj w' = log_of proj w0 @ (zs @ [y])" using zs 2(3) by simp
    ultimately show ?thesis unfolding handler(2) by (intro log_bound_RunningI)
  qed
next
  case (handler_done b pool1 pool2 w)
  obtain zs xs where zs: "log_of proj w = log_of proj w0 @ zs"
    and xs: "list_all2 (emits_upto proj) xs (pool1 @ Ret (Inr ()) # pool2)"
    and bound: "mset zs + mset (List.map_filter id xs) \<subseteq># E"
    using assms(2) unfolding handler_done(1) by (rule log_boundE)
  obtain xs1 x xs2 where split: "xs = xs1 @ x # xs2" "list_all2 (emits_upto proj) xs1 pool1"
    "list_all2 (emits_upto proj) xs2 pool2"
    using xs by (auto simp: list_all2_append2 list_all2_Cons2)
  then have "list_all2 (emits_upto proj) (xs1 @ xs2) (pool1 @ pool2)"
    by (simp add: list_all2_appendI)
  moreover have "mset (List.map_filter id (xs1 @ xs2)) \<subseteq># mset (List.map_filter id xs)"
    using split(1) by (simp split: option.split)
  then have "mset zs + mset (List.map_filter id (xs1 @ xs2)) \<subseteq># E"
    by (rule subset_mset.order_trans [OF subset_mset.add_left_mono bound])
  ultimately show ?thesis using zs unfolding handler_done(2) by (intro log_bound_RunningI)
next
  case (handler_err e pool b w)
  then show ?thesis using assms(2) log_bound_Returned by blast
next
  case (finished w)
  then show ?thesis using assms(2) log_bound_Returned by blast
qed

lemma log_bound_event:
  assumes "fec_step handle c (Some ev) c'" and "log_bound proj w0 E c"
    and "\<And>i. emits_upto proj (g i) (handle i)"
  shows "log_bound proj w0 (E + mset (List.map_filter g (yields [ev]))) c'"
  using assms(1)
proof (cases rule: fec_step.cases)
  case (item pool w i)
  obtain zs xs where zs: "log_of proj w = log_of proj w0 @ zs"
    and xs: "list_all2 (emits_upto proj) xs pool" and bound: "mset zs + mset (List.map_filter id xs) \<subseteq># E"
    using assms(2) unfolding item(1) by (rule log_boundE)
  have "list_all2 (emits_upto proj) (xs @ [g i]) (pool @ [handle i])"
    using xs assms(3) by (simp add: list_all2_appendI)
  moreover have "mset (List.map_filter id (xs @ [g i]))
      = mset (List.map_filter id xs) + mset (List.map_filter g [i])"
    by (simp split: option.split)
  then have "mset zs + mset (List.map_filter id (xs @ [g i])) \<subseteq># E + mset (List.map_filter g [i])"
    using bound by (metis add.assoc subset_mset.add_right_mono)
  ultimately have "log_bound proj w0 (E + mset (List.map_filter g [i])) (Running False (pool @ [handle i]), w)"
    using zs by (intro log_bound_RunningI)
  moreover have "yields [ev] = [i]" using item(2) by simp
  ultimately show ?thesis using item(3) by simp
next
  case (item_err pool w e)
  then have "log_bound proj w0 E c'" using assms(2) log_bound_Returned by blast
  then show ?thesis by (rule log_bound_mono) simp
next
  case (stream_end pool w)
  then have "log_bound proj w0 E c'" using assms(2) by (auto simp: log_bound_def)
  then show ?thesis by (rule log_bound_mono) simp
qed

lemma fec_run_log_bound:
  assumes "fec_run handle (Running False [], w0) evs c" and "\<And>i. emits_upto proj (g i) (handle i)"
  shows "log_bound proj w0 (mset (List.map_filter g (yields evs))) c"
  using assms(1)
proof (induction rule: fec_run.induct)
  case start
  show ?case by (rule log_bound_RunningI [of _ _ _ "[]" "[]"]) auto
next
  case (silent evs c' c'')
  then show ?case by (blast intro: log_bound_silent)
next
  case (event evs c' ev c'')
  from log_bound_event [OF event.hyps(2) event.IH assms(2)] show ?case
    by (simp only: map_filter_append mset_append)
qed

lemma fec_run_log:
  assumes "fec_run handle (Running False [], w0) evs (s, w)" and "\<And>i. emits_upto proj (g i) (handle i)"
  shows "\<exists>zs. log_of proj w = log_of proj w0 @ zs \<and> mset zs \<subseteq># mset (List.map_filter g (yields evs))"
  by (rule log_bound_log, rule fec_run_log_bound) (rule assms)+

text \<open>When no handler can fail, only the stream ends the loop.\<close>

definition loop_reason :: "'e for_each \<Rightarrow> ('e, 'i) stream_event list \<Rightarrow> bool" where
  "loop_reason s evs \<longleftrightarrow>
     (case s of
        Running False pool \<Rightarrow> (\<forall>t\<in>set pool. never_fails t) \<and> (\<exists>is. evs = map (\<lambda>i. Yield (Inr i)) is)
      | Running True pool \<Rightarrow> (\<forall>t\<in>set pool. never_fails t) \<and>
          (\<exists>is. evs = map (\<lambda>i. Yield (Inr i)) is @ [Stream_End])
      | Returned (Inl e) \<Rightarrow> \<exists>is. evs = map (\<lambda>i. Yield (Inr i)) is @ [Yield (Inl e)]
      | Returned (Inr u) \<Rightarrow> \<exists>is. evs = map (\<lambda>i. Yield (Inr i)) is @ [Stream_End])"

lemma fec_run_reason:
  assumes "fec_run handle (Running False [], w0) evs c" and "\<And>i. never_fails (handle i)"
  shows "loop_reason (fst c) evs"
  using assms(1)
proof (induction rule: fec_run.induct)
  case start
  show ?case by (simp add: loop_reason_def)
next
  case (silent evs c' c'')
  from silent.hyps(2) silent.IH show ?case
  proof (cases rule: fec_step.cases)
    case (handler i pool f w t w' b)
    then have "never_fails t"
      using silent.IH nth_mem [of i pool] by (auto simp: loop_reason_def intro: never_fails_step split: bool.splits)
    with handler silent.IH show ?thesis
      by (auto simp: loop_reason_def split: bool.splits dest: set_update_subset_insert [THEN subsetD])
  next
    case (handler_err e pool b w)
    with silent.IH have False by (auto simp: loop_reason_def split: bool.splits)
    then show ?thesis ..
  qed (auto simp: loop_reason_def split: bool.splits)
next
  case (event evs c' ev c'')
  from event.hyps(2) event.IH show ?case
  proof (cases rule: fec_step.cases)
    case (item pool w i)
    with event.IH obtain is' where "evs = map (\<lambda>i. Yield (Inr i)) is'" by (auto simp: loop_reason_def)
    then have "evs @ [ev] = map (\<lambda>i. Yield (Inr i)) (is' @ [i])" using item by simp
    then have "\<exists>is. evs @ [ev] = map (\<lambda>i. Yield (Inr i)) is" ..
    with item event.IH assms(2) show ?thesis by (auto simp: loop_reason_def)
  qed (auto simp: loop_reason_def)
qed

text \<open>The handlers at work can always be run to their end without further input.\<close>

lemma fec_run_trans:
  "fec_run handle c' evs' c'' \<Longrightarrow> fec_run handle c evs c' \<Longrightarrow> fec_run handle c (evs @ evs') c''"
proof (induction rule: fec_run.induct)
  case (event evs' c1 ev c2)
  then show ?case using fec_run.event [of handle c "evs @ evs'" c1 ev c2] by simp
qed (auto intro: fec_run.silent)

lemma fec_run_head:
  "never_fails t \<Longrightarrow> \<exists>w'. fec_run handle (Running b (t # pool), w) [] (Running b pool, w')"
proof (induction t arbitrary: w rule: task_induct)
  case (Ret r)
  then obtain u where "r = Inr u" by (cases r) auto
  then show ?case
    using fec_run.silent [OF fec_run.start fec_step.handler_done [of handle b "[]" pool w]] by auto
next
  case (Act f)
  obtain t w1 where f: "f w = (t, w1)" by (cases "f w")
  have "never_fails t" using Act.prems f by (rule never_fails_step)
  then obtain w' where "fec_run handle (Running b (t # pool), w1) [] (Running b pool, w')"
    using Act.IH [OF f] by blast
  moreover have "fec_run handle (Running b (Act f # pool), w) [] (Running b (t # pool), w1)"
    using fec_run.silent [OF fec_run.start fec_step.handler [of 0 "Act f # pool" f w t w1 handle b]] f
    by simp
  ultimately have "fec_run handle (Running b (Act f # pool), w) ([] @ []) (Running b pool, w')"
    by (rule fec_run_trans)
  then show ?case by auto
qed

lemma fec_run_drain:
  "\<forall>t\<in>set pool. never_fails t \<Longrightarrow> \<exists>w'. fec_run handle (Running b pool, w) [] (Running b [], w')"
proof (induction pool arbitrary: w)
  case Nil
  show ?case by (blast intro: fec_run.start)
next
  case (Cons t pool)
  obtain w1 where "fec_run handle (Running b (t # pool), w) [] (Running b pool, w1)"
    using fec_run_head Cons.prems by force
  moreover obtain w2 where "fec_run handle (Running b pool, w1) [] (Running b [], w2)"
    using Cons by force
  ultimately have "fec_run handle (Running b (t # pool), w) ([] @ []) (Running b [], w2)"
    by (intro fec_run_trans)
  then show ?case by auto
qed

end
