(* ===== verification/Streams.thy ===== *)
theory Streams
  imports Prelude
begin

text \<open>
  Streams of results, and the program's own combinator \<^verbatim>\<open>main/src/stream.rs\<close>. A stream is
  modelled by what has been observed of it so far: the items it has yielded, in order, and
  whether it has ended; a future by its result, or \<open>None\<close> while it is pending. Which of
  several ready streams \<^verbatim>\<open>select\<close> takes an item from is not the program's choice:
  \<open>select\<close> is a parameter, with the contract \<open>stream_select\<close>.
\<close>

section \<open>Observed streams\<close>

datatype 'a observed = Observed (items: "'a list") (ended: bool)

text \<open>The item-wise adapters: \<^verbatim>\<open>map\<close>, and \<^verbatim>\<open>filter_map\<close> with a ready future.\<close>

definition stream_map :: "('a \<Rightarrow> 'b) \<Rightarrow> 'a observed \<Rightarrow> 'b observed" where
  "stream_map f s = Observed (map f (items s)) (ended s)"

definition stream_filter_map :: "('a \<Rightarrow> 'b option) \<Rightarrow> 'a observed \<Rightarrow> 'b observed" where
  "stream_filter_map f s = Observed (List.map_filter f (items s)) (ended s)"

text \<open>\<^verbatim>\<open>into_stream\<close> of a future, and \<^verbatim>\<open>once\<close>.\<close>

definition into_stream :: "'a option \<Rightarrow> 'a observed" where
  "into_stream r = (case r of None \<Rightarrow> Observed [] False | Some x \<Rightarrow> Observed [x] True)"

definition stream_once :: "'a \<Rightarrow> 'a observed" where
  "stream_once x = Observed [x] True"

lemma stream_sel [simp]:
  "items (stream_map f s) = map f (items s)"
  "ended (stream_map f s) = ended s"
  "items (stream_filter_map g s) = List.map_filter g (items s)"
  "ended (stream_filter_map g s) = ended s"
  "items (into_stream r) = (case r of None \<Rightarrow> [] | Some x \<Rightarrow> [x])"
  "ended (into_stream r) \<longleftrightarrow> r \<noteq> None"
  "items (stream_once y) = [y]"
  "ended (stream_once y)"
  by (auto simp: stream_map_def stream_filter_map_def into_stream_def stream_once_def
      split: option.splits)

lemma observed_eqI: "items s = items t \<Longrightarrow> ended s = ended t \<Longrightarrow> s = t"
  by (cases s; cases t) simp

section \<open>Merging two streams\<close>

text \<open>
  \<^verbatim>\<open>futures_util::stream::select\<close>: the items of both streams, each in its own order; it ends
  when both have ended.
\<close>

locale stream_select =
  fixes select :: "'a observed \<Rightarrow> 'a observed \<Rightarrow> 'a observed"
  assumes select_items: "items (select s t) \<in> shuffles (items s) (items t)"
    and select_ended: "ended (select s t) \<longleftrightarrow> ended s \<and> ended t"

text \<open>The source of each item, chosen by a schedule: \<open>True\<close> takes from the left.\<close>

fun merge_by :: "bool list \<Rightarrow> 'a list \<Rightarrow> 'a list \<Rightarrow> 'a list" where
  "merge_by sch [] ys = ys"
| "merge_by sch xs [] = xs"
| "merge_by [] xs ys = xs @ ys"
| "merge_by (left # sch) (x # xs) (y # ys) =
     (if left then x # merge_by sch xs (y # ys) else y # merge_by sch (x # xs) ys)"

lemma merge_by_Nil [simp]: "merge_by sch xs [] = xs"
  by (cases xs) auto

definition scheduled_select :: "bool list \<Rightarrow> 'a observed \<Rightarrow> 'a observed \<Rightarrow> 'a observed" where
  "scheduled_select sch s t = Observed (merge_by sch (items s) (items t)) (ended s \<and> ended t)"

lemma append_in_shuffles [simp]: "xs @ ys \<in> shuffles xs ys"
  by (induction xs) (auto intro: Cons_in_shuffles_leftI)

lemma merge_by_shuffles: "merge_by sch xs ys \<in> shuffles xs ys"
proof (induction sch xs ys rule: merge_by.induct)
  case (3 v va vb vc)
  show ?case using append_in_shuffles [of "v # va" "vb # vc"] by simp
qed (auto intro: Cons_in_shuffles_leftI Cons_in_shuffles_rightI)

text \<open>Every merge arises from some schedule, so the contract says no more than this.\<close>

lemma merge_by_complete: "zs \<in> shuffles xs ys \<Longrightarrow> \<exists>sch. merge_by sch xs ys = zs"
proof (induction xs ys arbitrary: zs rule: shuffles.induct)
  case (3 x xs y ys)
  then consider (left) zs' where "zs = x # zs'" "zs' \<in> shuffles xs (y # ys)"
    | (right) zs' where "zs = y # zs'" "zs' \<in> shuffles (x # xs) ys"
    by auto
  then show ?case
  proof cases
    case left
    then obtain sch where "merge_by sch xs (y # ys) = zs'" using 3 by blast
    then have "merge_by (True # sch) (x # xs) (y # ys) = zs" using left by simp
    then show ?thesis ..
  next
    case right
    then obtain sch where "merge_by sch (x # xs) ys = zs'" using 3 by blast
    then have "merge_by (False # sch) (x # xs) (y # ys) = zs" using right by simp
    then show ?thesis ..
  qed
qed auto

interpretation scheduled: stream_select "scheduled_select sch" for sch
  by unfold_locales (simp_all add: scheduled_select_def merge_by_shuffles)

lemma map_filter_shuffles:
  "zs \<in> shuffles xs ys \<Longrightarrow>
     List.map_filter f zs \<in> shuffles (List.map_filter f xs) (List.map_filter f ys)"
proof (induction xs ys arbitrary: zs rule: shuffles.induct)
  case (3 x xs y ys)
  then consider (left) zs' where "zs = x # zs'" "zs' \<in> shuffles xs (y # ys)"
    | (right) zs' where "zs = y # zs'" "zs' \<in> shuffles (x # xs) ys"
    by auto
  then show ?case
  proof cases
    case left
    then have "List.map_filter f zs' \<in> shuffles (List.map_filter f xs) (List.map_filter f (y # ys))"
      using 3 by blast
    then show ?thesis
      using left(1) by (auto simp: List.map_filter_simps(1) split: option.split
          intro: Cons_in_shuffles_leftI)
  next
    case right
    then have "List.map_filter f zs' \<in> shuffles (List.map_filter f (x # xs)) (List.map_filter f ys)"
      using 3 by blast
    then show ?thesis
      using right(1) by (auto simp: List.map_filter_simps(1) split: option.split
          intro: Cons_in_shuffles_rightI)
  qed
qed (simp_all add: List.map_filter_simps(2))

section \<open>join\<close>

text \<open>
  \<^verbatim>\<open>stream::join\<close>: the items of a stream together with the error of a future, if it fails; its
  success is dropped. \<open>fe\<close> and \<open>se\<close> are the \<^verbatim>\<open>Into\<close> conversions of the errors.
\<close>

definition join ::
  "(('r, 'a option) result observed \<Rightarrow> ('r, 'a option) result observed \<Rightarrow>
      ('r, 'a option) result observed) \<Rightarrow>
    ('f \<Rightarrow> 'r) \<Rightarrow> ('s \<Rightarrow> 'r) \<Rightarrow> ('f, 'u) result option \<Rightarrow> ('s, 'a) result observed \<Rightarrow>
    ('r, 'a) result observed" where
  "join select fe se future stream =
     (let wrapped_future = into_stream (map_option (\<lambda>r. map_err fe (map_ok (\<lambda>_. None) r)) future);
          wrapped_stream = stream_map (\<lambda>r. map_err se (map_ok Some r)) stream
      in stream_filter_map transpose (select wrapped_stream wrapped_future))"

text \<open>The stream a caller expects: the items with their errors converted.\<close>

abbreviation converted :: "('s \<Rightarrow> 'r) \<Rightarrow> ('s, 'a) result observed \<Rightarrow> ('r, 'a) result list" where
  "converted se stream \<equiv> map (map_err se) (items stream)"

lemma transpose_wrapped_stream:
  "List.map_filter transpose (map (\<lambda>r. map_err se (map_ok Some r)) rs) = map (map_err se) rs"
  by (induction rs) (auto simp: List.map_filter_simps result_simps split: sum.split)

definition future_error :: "('f \<Rightarrow> 'r) \<Rightarrow> ('f, 'u) result option \<Rightarrow> ('r, 'a) result list" where
  "future_error fe future = (case future of Some (Inl e) \<Rightarrow> [Inl (fe e)] | _ \<Rightarrow> [])"

lemma transpose_wrapped_future:
  "List.map_filter transpose
     (items (into_stream (map_option (\<lambda>r. map_err fe (map_ok (\<lambda>_. None) r)) future)))
     = future_error fe future"
  by (auto simp: future_error_def List.map_filter_simps result_simps split: option.split sum.split)

context stream_select
begin

lemma select_empty_right: "items t = [] \<Longrightarrow> items (select s t) = items s"
  using select_items [of s t] by simp

lemma select_empty_left: "items s = [] \<Longrightarrow> items (select s t) = items t"
  using select_items [of s t] by simp

lemma select_set: "set (items (select s t)) = set (items s) \<union> set (items t)"
  using set_shuffles [OF select_items] .

end

lemma join_shuffles:
  assumes "stream_select select"
  shows "items (join select fe se future stream)
    \<in> shuffles (converted se stream) (future_error fe future)"
  using map_filter_shuffles [OF stream_select.select_items [OF assms], of transpose]
  unfolding join_def Let_def stream_sel(3)
  by (metis (no_types) transpose_wrapped_stream transpose_wrapped_future stream_sel(1))

lemma join_ended:
  assumes "stream_select select"
  shows "ended (join select fe se future stream) \<longleftrightarrow> ended stream \<and> future \<noteq> None"
  using stream_select.select_ended [OF assms] by (simp add: join_def Let_def)

lemma join_no_failure:
  assumes "stream_select select" and "\<And>e. future \<noteq> Some (Inl e)"
  shows "items (join select fe se future stream) = converted se stream"
  using join_shuffles [OF assms(1), of fe se future stream] assms(2)
  by (auto simp: future_error_def split: option.splits sum.splits)

section \<open>Properties\<close>

text \<open>
  C24: Joining a future and a stream yields every item of the stream in its order, with the
  converted error of the future somewhere among them if it fails and nothing for it otherwise, and ends
  exactly when both have.
\<close>

theorem join_merges:
  assumes "stream_select select"
  shows "items (join select fe se future stream)
      \<in> shuffles (converted se stream) (future_error fe future) \<and>
    (ended (join select fe se future stream) \<longleftrightarrow> ended stream \<and> future \<noteq> None)"
  using join_shuffles [OF assms] join_ended [OF assms] by blast

theorem join_merges_witness:
  "items (join (scheduled_select [True, False]) id id (Some (Inl (9 :: nat)) :: (nat, unit) result option)
     (Observed [Inr ''a'', Inl 3, Inr ''b''] False)) = [Inr ''a'', Inl 9, Inl 3, Inr ''b''] \<and>
   items (join (scheduled_select [True, False]) id id (Some (Inl (9 :: nat)) :: (nat, unit) result option)
     (Observed [Inr ''a'', Inl 3, Inr ''b''] False)) \<in> shuffles [Inr ''a'', Inl 3, Inr ''b''] [Inl 9]"
  using join_merges [OF scheduled.stream_select_axioms [of "[True, False]"], of id id
      "Some (Inl (9 :: nat)) :: (nat, unit) result option" "Observed [Inr ''a'', Inl 3, Inr ''b''] False"]
  by (simp add: join_def result_simps stream_filter_map_def stream_map_def into_stream_def scheduled_select_def
      future_error_def List.map_filter_simps)

end
