(* ===== verification/Udp.thy ===== *)
theory Udp
  imports Concurrency Streams
begin

text \<open>
  The UDP sockets (\<^verbatim>\<open>main/src/network/udp_sender.rs\<close> and
  \<^verbatim>\<open>main/src/network/udp_receiver.rs\<close>): the trait \<^verbatim>\<open>UdpSender\<close> as a record of
  operations, its implementation \<^verbatim>\<open>TokioUdpSender\<close>, the contract the scanner and the
  server rely on, and \<^verbatim>\<open>TokioUdpReceiver\<close> with the framing of \<^verbatim>\<open>tokio_util\<close> as a
  parameter.
\<close>

section \<open>Sending\<close>

record udp_sender =
  send_multicast :: "sockaddr_v6 \<Rightarrow> byte list \<Rightarrow> (io_error, unit) result task"
  send_unicast :: "sockaddr_v6 \<Rightarrow> byte list \<Rightarrow> (io_error, unit) result task"

text \<open>
  \<^verbatim>\<open>TokioUdpSender::new_socket\<close>. The argument \<^verbatim>\<open>socket.local_addr()?\<close> of the
  \<^verbatim>\<open>log::debug!\<close> is evaluated, and may return early, only when that level is enabled.
\<close>

definition new_sender_socket :: "(io_error, nat) result task" where
  "new_sender_socket =
     try_await id (udp_bind wildcard_addr) (\<lambda>socket.
     task_bind debug_enabled (\<lambda>enabled.
     if enabled then try_await id (local_addr socket) (\<lambda>_. Ret (Inr socket))
     else Ret (Inr socket)))"

definition tokio_send_multicast :: "sockaddr_v6 \<Rightarrow> byte list \<Rightarrow> (io_error, unit) result task" where
  "tokio_send_multicast multicast_address data =
     try_await id new_sender_socket (\<lambda>socket.
     try_await id (join_multicast_v6 socket (sa_ip multicast_address) 0) (\<lambda>_.
     try_await id (send_to socket data multicast_address) (\<lambda>_.
     Ret (Inr ()))))"

definition tokio_send_unicast :: "sockaddr_v6 \<Rightarrow> byte list \<Rightarrow> (io_error, unit) result task" where
  "tokio_send_unicast unicast_address data =
     try_await id new_sender_socket (\<lambda>socket.
     try_await id (send_to socket data unicast_address) (\<lambda>_.
     Ret (Inr ())))"

definition tokio_udp_sender :: udp_sender where
  "tokio_udp_sender =
     \<lparr>send_multicast = tokio_send_multicast, send_unicast = tokio_send_unicast\<rparr>"

section \<open>The contract of a sender\<close>

text \<open>The datagrams that left the host, with their destinations.\<close>

type_synonym datagram = "sockaddr_v6 \<times> byte list"

fun sent_datagram :: "event \<Rightarrow> datagram list" where
  "sent_datagram (Ev_Send_To s d a (Inr n)) = [(a, d)]"
| "sent_datagram _ = []"

abbreviation datagrams :: "world \<Rightarrow> datagram list" where
  "datagrams \<equiv> log_of sent_datagram"

text \<open>
  A send puts one datagram on the network when it succeeds and none when it fails, however
  its steps are interleaved with other tasks.
\<close>

locale udp_sender_contract =
  fixes sender :: udp_sender
  assumes multicast_once: "emits_once sent_datagram (a, d) False (send_multicast sender a d)"
    and unicast_once: "emits_once sent_datagram (a, d) False (send_unicast sender a d)"
begin

lemma exec_multicast:
  "exec (send_multicast sender a d) w = (r, w') \<Longrightarrow>
     datagrams w' = datagrams w @ (if isl r then [] else [(a, d)])"
  using emits_once_exec [OF multicast_once] by simp

lemma exec_unicast:
  "exec (send_unicast sender a d) w = (r, w') \<Longrightarrow>
     datagrams w' = datagrams w @ (if isl r then [] else [(a, d)])"
  using emits_once_exec [OF unicast_once] by simp

end

lemma emits_once_debug_enabled:
  assumes "\<And>b. emits_once proj x sent (k b)"
  shows "emits_once proj x sent (task_bind debug_enabled k)"
  unfolding debug_enabled_def task_bind.simps
  by (rule emits_once.act, rule exI [of _ sent]) (simp add: assms)

lemma emits_once_new_socket:
  assumes "\<And>s. emits_once sent_datagram x False (k s)"
  shows "emits_once sent_datagram x False (try_await id new_sender_socket k)"
  unfolding new_sender_socket_def try_await_assoc try_await_bind udp_bind_def
proof (rule emits_once_quiet_await)
  fix s
  have "emits_once sent_datagram x False (try_await id (try_await id (local_addr s) (\<lambda>_. Ret (Inr s))) k)"
    unfolding try_await_assoc local_addr_def by (rule emits_once_quiet_await) (simp_all add: assms)
  then show "emits_once sent_datagram x False (task_bind debug_enabled (\<lambda>enabled. try_await id
      (if enabled then try_await id (local_addr s) (\<lambda>_. Ret (Inr s)) else Ret (Inr s)) k))"
    by (intro emits_once_debug_enabled) (simp add: assms)
qed simp

interpretation tokio: udp_sender_contract tokio_udp_sender
proof unfold_locales
  fix a d
  show "emits_once sent_datagram (a, d) False (send_multicast tokio_udp_sender a d)"
    unfolding tokio_udp_sender_def tokio_send_multicast_def udp_sender.simps
      join_multicast_v6_def send_to_def
    by (intro emits_once_new_socket emits_once_quiet_await emits_once_emit_await)
      (auto intro: emits_once.completed)
  show "emits_once sent_datagram (a, d) False (send_unicast tokio_udp_sender a d)"
    unfolding tokio_udp_sender_def tokio_send_unicast_def udp_sender.simps send_to_def
    by (intro emits_once_new_socket emits_once_emit_await) (auto intro: emits_once.completed)
qed

section \<open>Receiving\<close>

text \<open>
  \<^verbatim>\<open>TokioUdpReceiver::new_socket\<close>; \<open>test\<close> says whether the crate is compiled for its tests, in which case
  the \<^verbatim>\<open>cfg(test)\<close> block turns the multicast loop on again.
\<close>

definition build_receiver_socket :: "bool \<Rightarrow> ipv6_addr \<Rightarrow> u16 \<Rightarrow> (io_error, nat) result task" where
  "build_receiver_socket test multicast_ip port =
     try_await id (udp_bind (socket_addr_v6 unspecified port 0 0)) (\<lambda>socket.
     try_await id (join_multicast_v6 socket multicast_ip 0) (\<lambda>_.
     try_await id (set_multicast_loop_v6 socket False) (\<lambda>_.
     if test then try_await id (set_multicast_loop_v6 socket True) (\<lambda>_. Ret (Inr socket))
     else Ret (Inr socket))))"

definition new_receiver_socket :: "ipv6_addr \<Rightarrow> u16 \<Rightarrow> (io_error, nat) result task" where
  "new_receiver_socket = build_receiver_socket False"

lemmas receiver_socket_defs = new_receiver_socket_def build_receiver_socket_def

type_synonym ('e, 'm) frame_decoder = "byte list \<Rightarrow> ('e, 'm option) result \<times> byte list"

text \<open>The trait \<^verbatim>\<open>UdpReceiver\<close>; the first argument is \<^verbatim>\<open>E::from\<close>.\<close>

type_synonym ('e, 'm) udp_receiver =
  "(io_error \<Rightarrow> 'e) \<Rightarrow> ipv6_addr \<Rightarrow> u16 \<Rightarrow> ('e, 'm) frame_decoder \<Rightarrow> ('e, 'm \<times> socket_addr) result observed"

text \<open>What arrives on a socket: datagrams with their source, or errors of the socket.\<close>

type_synonym incoming = "(io_error, byte list \<times> socket_addr) result"

text \<open>
  \<^verbatim>\<open>tokio_util::udp::UdpFramed\<close>: a datagram is run through the decoder until the decoder
  says that the buffer holds no frame; an error of the decoder is yielded, and the decoder is
  run again on what it left of the datagram. Nothing makes that end: a decoder that fails and leaves the
  buffer as it was is run on it for ever. So \<open>framed n\<close> is what has been yielded after \<open>n\<close> rounds, a round
  being one run of the decoder or one error of the socket.
\<close>

definition stream_cons :: "'a \<Rightarrow> 'a observed \<Rightarrow> 'a observed" where
  "stream_cons x s = Observed (x # items s) (ended s)"

lemma stream_cons_sel [simp]: "items (stream_cons x s) = x # items s" "ended (stream_cons x s) = ended s"
  by (simp_all add: stream_cons_def)

locale udp_framing =
  fixes framed :: "nat \<Rightarrow> (io_error \<Rightarrow> 'e) \<Rightarrow> ('e, 'm) frame_decoder \<Rightarrow> incoming observed \<Rightarrow>
      ('e, 'm \<times> socket_addr) result observed"
  assumes framed_start: "framed 0 conv dec arrived = Observed [] False"
    and framed_Nil: "framed (Suc n) conv dec (Observed [] over) = Observed [] over"
    and framed_io_error: "framed (Suc n) conv dec (Observed (Inl e # ins) over) =
      stream_cons (Inl (conv e)) (framed n conv dec (Observed ins over))"
    and framed_frame: "dec b = (Inr (Some m), rest) \<Longrightarrow>
      framed (Suc n) conv dec (Observed (Inr (b, a) # ins) over) =
        stream_cons (Inr (m, a)) (framed n conv dec (Observed (Inr (rest, a) # ins) over))"
    and framed_refused: "dec b = (Inl err, rest) \<Longrightarrow>
      framed (Suc n) conv dec (Observed (Inr (b, a) # ins) over) =
        stream_cons (Inl err) (framed n conv dec (Observed (Inr (rest, a) # ins) over))"
    and framed_no_frame: "dec b = (Inr None, []) \<Longrightarrow>
      framed (Suc n) conv dec (Observed (Inr (b, a) # ins) over) = framed n conv dec (Observed ins over)"

text \<open>Such a framing, with \<^verbatim>\<open>decode_eof\<close> complaining of bytes left over.\<close>

definition decode_eof :: "(io_error \<Rightarrow> 'e) \<Rightarrow> ('e, 'm) frame_decoder \<Rightarrow> ('e, 'm) frame_decoder" where
  "decode_eof conv dec buf =
     (case dec buf of
        (Inr None, rest) \<Rightarrow> if rest = [] then (Inr None, rest) else (Inl (conv (Io_Error 0)), [])
      | r \<Rightarrow> r)"

fun frame_datagrams :: "nat \<Rightarrow> (io_error \<Rightarrow> 'e) \<Rightarrow> ('e, 'm) frame_decoder \<Rightarrow> incoming observed \<Rightarrow>
    ('e, 'm \<times> socket_addr) result observed" where
  "frame_datagrams 0 conv dec arrived = Observed [] False"
| "frame_datagrams (Suc n) conv dec (Observed [] over) = Observed [] over"
| "frame_datagrams (Suc n) conv dec (Observed (Inl e # ins) over) =
     stream_cons (Inl (conv e)) (frame_datagrams n conv dec (Observed ins over))"
| "frame_datagrams (Suc n) conv dec (Observed (Inr (b, a) # ins) over) =
     (case decode_eof conv dec b of
        (Inr None, rest) \<Rightarrow> frame_datagrams n conv dec (Observed ins over)
      | (Inr (Some m), rest) \<Rightarrow>
          stream_cons (Inr (m, a)) (frame_datagrams n conv dec (Observed (Inr (rest, a) # ins) over))
      | (Inl e, rest) \<Rightarrow>
          stream_cons (Inl e) (frame_datagrams n conv dec (Observed (Inr (rest, a) # ins) over)))"

interpretation framing: udp_framing frame_datagrams
  by unfold_locales (auto simp: decode_eof_def)

text \<open>A future of a stream as a stream: nothing while it is pending, its error once it fails.\<close>

definition try_flatten_stream :: "('e, ('e, 'a) result observed) result option \<Rightarrow> ('e, 'a) result observed" where
  "try_flatten_stream future =
     (case future of
        None \<Rightarrow> Observed [] False
      | Some (Inl e) \<Rightarrow> stream_once (Inl e)
      | Some (Inr stream) \<Rightarrow> stream)"

text \<open>
  \<^verbatim>\<open>TokioUdpReceiver::receive\<close>: the stream of \<^verbatim>\<open>new_socket\<close>, flattened. \<open>observe\<close> is how
  far the future of the socket has come, \<open>arrivals\<close> what has arrived on each socket.
\<close>

definition udp_receive ::
  "((io_error \<Rightarrow> 'e) \<Rightarrow> ('e, 'm) frame_decoder \<Rightarrow> incoming observed \<Rightarrow> ('e, 'm \<times> socket_addr) result observed) \<Rightarrow>
   ((io_error, nat) result task \<Rightarrow> (io_error, nat) result option) \<Rightarrow>
   (nat \<Rightarrow> incoming observed) \<Rightarrow> ('e, 'm) udp_receiver" where
  "udp_receive framed observe arrivals conv multicast_ip port decoder =
     try_flatten_stream (map_option
       (\<lambda>r. map_err conv (map_ok (\<lambda>socket. framed conv decoder (arrivals socket)) r))
       (observe (new_receiver_socket multicast_ip port)))"

lemmas udp_receive_defs = udp_receive_def try_flatten_stream_def map_err_def map_ok_def

text \<open>The result of a task that has made \<open>n\<close> steps from the world \<open>w\<close>.\<close>

definition observe_after :: "nat \<Rightarrow> world \<Rightarrow> 'a task \<Rightarrow> 'a option" where
  "observe_after n w t = (case fst (run_steps n t w) of Ret x \<Rightarrow> Some x | Act _ \<Rightarrow> None)"

lemma observe_after_Some: "observe_after n w t = Some x \<Longrightarrow> fst (exec t w) = x"
  by (cases "run_steps n t w") (auto simp: observe_after_def dest: run_steps_returned split: task.splits)

lemma observe_after_ex: "\<exists>n. observe_after n w t = Some (fst (exec t w))"
proof -
  obtain n where "run_steps n t w = (Ret (fst (exec t w)), snd (exec t w))"
    using run_steps_exec by blast
  then have "observe_after n w t = Some (fst (exec t w))" by (simp add: observe_after_def)
  then show ?thesis ..
qed

section \<open>Properties\<close>

text \<open>
  C28: A send puts exactly that datagram on the network when it succeeds, and nothing when any
  of its calls fails; to send to a group, it first joins that group on the same fresh socket.
\<close>

theorem tokio_sends_once:
  "(case exec (tokio_send_unicast a d) w of (r, w') \<Rightarrow>
      datagrams w' = datagrams w @ (if isl r then [] else [(a, d)])) \<and>
   (case exec (tokio_send_multicast a d) w of (r, w') \<Rightarrow>
      datagrams w' = datagrams w @ (if isl r then [] else [(a, d)]) \<and>
      (isl r \<or> (\<exists>s es n. trace w' = trace w @ es @
         [Ev_Join_Multicast s (sa_ip a) 0 (Inr ()), Ev_Send_To s d a (Inr n)])))"
proof
  show "case exec (tokio_send_unicast a d) w of (r, w') \<Rightarrow>
      datagrams w' = datagrams w @ (if isl r then [] else [(a, d)])"
    using tokio.exec_unicast [of a d w]
    by (cases "exec (tokio_send_unicast a d) w") (simp add: tokio_udp_sender_def)
  show "case exec (tokio_send_multicast a d) w of (r, w') \<Rightarrow>
      datagrams w' = datagrams w @ (if isl r then [] else [(a, d)]) \<and>
      (isl r \<or> (\<exists>s es n. trace w' = trace w @ es @
         [Ev_Join_Multicast s (sa_ip a) 0 (Inr ()), Ev_Send_To s d a (Inr n)]))"
    using tokio.exec_multicast [of a d w]
    by (cases "exec (tokio_send_multicast a d) w")
      (auto simp: tokio_udp_sender_def tokio_send_multicast_def new_sender_socket_def call_defs
        exec_simps split: sum.splits if_splits)
qed

text \<open>
  A receiving socket that is handed out is bound to the discovery port on all
  interfaces, has joined the group, and has multicast loopback turned off, in that order.
\<close>

theorem receiver_socket_ready:
  assumes "exec (new_receiver_socket ip port) w = (Inr s, w')"
  shows "trace w' = trace w @
    [Ev_Udp_Bind (socket_addr_v6 unspecified port 0 0) (Inr s), Ev_Join_Multicast s ip 0 (Inr ()),
     Ev_Set_Multicast_Loop s False (Inr ())]"
  using assms
  by (auto simp: receiver_socket_defs call_defs exec_simps split: sum.splits)

theorem receiver_socket_ready_witness:
  "trace (snd (exec (new_receiver_socket localhost 50000) fresh_world)) =
    [Ev_Udp_Bind (socket_addr_v6 unspecified 50000 0 0) (Inr 1), Ev_Join_Multicast 1 localhost 0 (Inr ()),
     Ev_Set_Multicast_Loop 1 False (Inr ())]"
proof -
  have ok: "fst (exec (new_receiver_socket localhost 50000) fresh_world) = Inr 1"
    by (simp add: receiver_socket_defs call_defs exec_simps fresh_world_defs)
  show ?thesis
    using receiver_socket_ready [OF prod.expand [where prod' = "(Inr 1, snd (exec (new_receiver_socket localhost 50000) fresh_world))"]] ok
    by (simp add: fresh_world_defs)
qed

end
