(* ===== verification/Packet.thy ===== *)
theory Packet
  imports Udp Wire_Format Discovery "HOL-Library.Sublist"
begin

text \<open>
  \<^verbatim>\<open>main/src/packet.rs\<close>: the receiver of discovery packets, which drops what is not a
  packet and what does not come from IPv6.
\<close>

definition strip_protobuf_error ::
  "(decode_error, discovery_packet \<times> socket_addr) result \<Rightarrow>
   (io_error, discovery_packet \<times> socket_addr) result option" where
  "strip_protobuf_error r =
     (case r of
        Inr inner \<Rightarrow> Some (Inr inner)
      | Inl (Decode_Io e) \<Rightarrow> Some (Inl e)
      | Inl (Decode_Protobuf e) \<Rightarrow> None)"

definition extract_ipv6 ::
  "(io_error, discovery_packet \<times> socket_addr) result \<Rightarrow>
   (io_error, discovery_packet \<times> sockaddr_v6) result option" where
  "extract_ipv6 r =
     (case r of
        Inr (_, V4 _) \<Rightarrow> None
      | Inr (packet, V6 addr) \<Rightarrow> Some (Inr (packet, addr))
      | Inl e \<Rightarrow> Some (Inl e))"

text \<open>The trait \<^verbatim>\<open>DiscoveryPacketReceiver\<close>, and its implementation for a UDP receiver.\<close>

type_synonym packet_receiver =
  "ipv6_addr \<Rightarrow> u16 \<Rightarrow> (io_error, discovery_packet \<times> sockaddr_v6) result observed"

definition receive_packets ::
  "((decode_error, discovery_packet) frame_decoder \<Rightarrow>
      (decode_error, discovery_packet \<times> socket_addr) result observed) \<Rightarrow>
   discovery_packet message_decoder \<Rightarrow>
   (io_error, discovery_packet \<times> sockaddr_v6) result observed" where
  "receive_packets udp dec =
     stream_filter_map extract_ipv6 (stream_filter_map strip_protobuf_error (udp (protobuf_decode dec)))"

definition tokio_packet_receiver ::
  "((io_error \<Rightarrow> decode_error) \<Rightarrow> (decode_error, discovery_packet) frame_decoder \<Rightarrow>
      incoming observed \<Rightarrow> (decode_error, discovery_packet \<times> socket_addr) result observed) \<Rightarrow>
   discovery_packet message_decoder \<Rightarrow>
   ((io_error, nat) result task \<Rightarrow> (io_error, nat) result option) \<Rightarrow>
   (nat \<Rightarrow> incoming observed) \<Rightarrow> packet_receiver" where
  "tokio_packet_receiver framed dec observe arrivals multicast_ip port =
     receive_packets (udp_receive framed observe arrivals Decode_Io multicast_ip port) dec"

section \<open>What arrives and what is yielded\<close>

text \<open>
  The specification: what becomes of a datagram. The decoder is run on it, and, where it refuses, again on
  what it left, until it finds a message or nothing is left. \<open>None\<close> is that this never ends.
\<close>

partial_function (option) message_in :: "'m message_decoder \<Rightarrow> byte list \<Rightarrow> 'm option option" where
  "message_in dec b =
     (if b = [] then Some None
      else case dec b of
             (Inr m, rest) \<Rightarrow> Some (Some m)
           | (Inl e, rest) \<Rightarrow> message_in dec rest)"

lemma message_in_Nil [simp]: "message_in dec [] = Some None"
  by (simp add: message_in.simps)

lemma message_in_refused: "b \<noteq> [] \<Longrightarrow> dec b = (Inl e, rest) \<Longrightarrow> message_in dec b = message_in dec rest"
  by (simp add: message_in.simps [of dec b])

lemma message_in_message: "b \<noteq> [] \<Longrightarrow> dec b = (Inr m, rest) \<Longrightarrow> message_in dec b = Some (Some m)"
  by (simp add: message_in.simps [of dec b])

lemma message_in_induct [consumes 1, case_names empty message refused]:
  assumes "message_in dec b = Some y"
    and "P [] None"
    and "\<And>b m rest. b \<noteq> [] \<Longrightarrow> dec b = (Inr m, rest) \<Longrightarrow> P b (Some m)"
    and "\<And>b e rest y. b \<noteq> [] \<Longrightarrow> dec b = (Inl e, rest) \<Longrightarrow> message_in dec rest = Some y \<Longrightarrow> P rest y \<Longrightarrow> P b y"
  shows "P b y"
proof -
  have "dec' = dec \<longrightarrow> message_in dec b' = Some y' \<and> P b' y'" if "message_in dec' b' = Some y'" for dec' b' y'
    using that
  proof (rule message_in.raw_induct [rotated], intro impI)
    fix rec :: "'a message_decoder \<Rightarrow> byte list \<Rightarrow> 'a option option" and dec'' b y
    assume IH: "\<And>d b y. rec d b = Some y \<Longrightarrow> d = dec \<longrightarrow> message_in dec b = Some y \<and> P b y"
      and body: "(if b = [] then Some None else case dec'' b of (Inl e, rest) \<Rightarrow> rec dec'' rest
        | (Inr m, rest) \<Rightarrow> Some (Some m)) = Some y" and "dec'' = dec"
    then show "message_in dec b = Some y \<and> P b y"
      using assms(2-4) by (cases "b = []"; cases "dec b"; cases "fst (dec b)") (auto simp: message_in_refused message_in_message)
  qed
  with assms(1) show ?thesis by blast
qed

text \<open>A decoder that refuses bytes and leaves them all in the buffer is run on them for ever.\<close>

lemma unconsumed_never_ends:
  assumes "b \<noteq> []" and "dec b = (Inl e, b)"
  shows "message_in dec b = None"
proof -
  have "message_in dec b' = Some x \<Longrightarrow> b' \<noteq> b" for b' x
    by (induction rule: message_in_induct) (use assms in auto)
  then show ?thesis by (cases "message_in dec b") auto
qed

text \<open>What is yielded for the arrivals: nothing behind a datagram that never ends.\<close>

fun received ::
  "discovery_packet message_decoder \<Rightarrow> incoming list \<Rightarrow>
   (io_error, discovery_packet \<times> sockaddr_v6) result list" where
  "received dec [] = []"
| "received dec (Inl e # ins) = Inl e # received dec ins"
| "received dec (Inr (b, a) # ins) =
     (case message_in dec b of
        None \<Rightarrow> []
      | Some None \<Rightarrow> received dec ins
      | Some (Some p) \<Rightarrow> (case a of V4 _ \<Rightarrow> [] | V6 a6 \<Rightarrow> [Inr (p, a6)]) @ received dec ins)"

definition stalls :: "'m message_decoder \<Rightarrow> incoming list \<Rightarrow> bool" where
  "stalls dec ins \<longleftrightarrow> list_ex (\<lambda>i. case i of Inl e \<Rightarrow> False | Inr (b, a) \<Rightarrow> message_in dec b = None) ins"

lemma stalls_simps [simp]:
  "\<not> stalls dec []" "stalls dec (Inl e # ins) \<longleftrightarrow> stalls dec ins"
  "stalls dec (Inr (b, a) # ins) \<longleftrightarrow> message_in dec b = None \<or> stalls dec ins"
  by (simp_all add: stalls_def)

lemma protobuf_decode_Nil [simp]: "protobuf_decode dec [] = (Inr None, [])"
  by (simp add: protobuf_decode_def)

lemma strip_then_extract [simp]:
  "Option.bind (strip_protobuf_error r) extract_ipv6 =
     (case r of
        Inl (Decode_Io e) \<Rightarrow> Some (Inl e)
      | Inl (Decode_Protobuf e) \<Rightarrow> None
      | Inr (p, V4 _) \<Rightarrow> None
      | Inr (p, V6 a) \<Rightarrow> Some (Inr (p, a)))"
  by (auto simp: strip_protobuf_error_def extract_ipv6_def split: sum.split decode_error.split
      socket_addr.split)

lemma map_filter_map_filter:
  "List.map_filter g (List.map_filter f xs) = List.map_filter (\<lambda>x. Option.bind (f x) g) xs"
  by (induction xs) (auto split: option.split)

text \<open>The packets of a framed stream.\<close>

definition packets_of ::
  "(decode_error, discovery_packet \<times> socket_addr) result observed \<Rightarrow>
   (io_error, discovery_packet \<times> sockaddr_v6) result observed" where
  "packets_of s = stream_filter_map (\<lambda>r. Option.bind (strip_protobuf_error r) extract_ipv6) s"

lemma packets_of_Observed [simp]: "packets_of (Observed [] over) = Observed [] over"
  by (simp add: packets_of_def stream_filter_map_def List.map_filter_simps)

definition stream_append :: "'a list \<Rightarrow> 'a observed \<Rightarrow> 'a observed" where
  "stream_append xs s = Observed (xs @ items s) (ended s)"

lemma stream_append_simps [simp]:
  "items (stream_append xs s) = xs @ items s" "ended (stream_append xs s) = ended s"
  "stream_append [] s = s" "stream_append xs (stream_append ys s) = stream_append (xs @ ys) s"
  by (simp_all add: stream_append_def)

lemma packets_of_cons [simp]:
  "packets_of (stream_cons (Inl (Decode_Io e)) s) = stream_append [Inl e] (packets_of s)"
  "packets_of (stream_cons (Inl (Decode_Protobuf pe)) s) = packets_of s"
  "packets_of (stream_cons (Inr (p, a)) s) =
     stream_append (case a of V4 _ \<Rightarrow> [] | V6 a6 \<Rightarrow> [Inr (p, a6)]) (packets_of s)"
  by (auto simp: packets_of_def stream_filter_map_def stream_append_def List.map_filter_simps
      split: socket_addr.split)

section \<open>The rounds of the framing\<close>

lemma protobuf_frame:
  assumes "message_decoder dec" and "b \<noteq> []" and "dec b = (Inr m, rest)"
  shows "protobuf_decode dec b = (Inr (Some m), [])"
  using assms(2,3) message_decoder.decode_whole [OF assms(1,3)] by (simp add: protobuf_decode_def)

lemma protobuf_refused:
  "b \<noteq> [] \<Longrightarrow> dec b = (Inl e, rest) \<Longrightarrow> protobuf_decode dec b = (Inl (Decode_Protobuf e), rest)"
  by (simp add: protobuf_decode_def)

text \<open>Whatever the rounds, what has been yielded is a beginning of what is received.\<close>

lemma framed_prefix:
  assumes "udp_framing framed" and "message_decoder dec"
  shows "prefix (items (packets_of (framed n Decode_Io (protobuf_decode dec) (Observed ins over))))
      (received dec ins) \<and>
    (ended (packets_of (framed n Decode_Io (protobuf_decode dec) (Observed ins over))) \<longrightarrow> over \<and> \<not> stalls dec ins)"
proof (induction n arbitrary: ins)
  case 0
  then show ?case by (simp add: udp_framing.framed_start [OF assms(1)])
next
  case (Suc n)
  consider "ins = []" | e ins' where "ins = Inl e # ins'" | a ins' where "ins = Inr ([], a) # ins'"
    | (datagram) b a ins' where "ins = Inr (b, a) # ins'" "b \<noteq> []"
    by (cases "(dec, ins)" rule: received.cases) auto
  then show ?case
  proof cases
    case datagram
    obtain r rest where dec: "dec b = (r, rest)" by (cases "dec b")
    show ?thesis
    proof (cases r)
      case (Inl e)
      then show ?thesis
        using Suc [of "Inr (rest, a) # ins'"] datagram dec
        by (auto simp: udp_framing.framed_refused [OF assms(1) protobuf_refused] message_in_refused)
    next
      case (Inr m)
      then show ?thesis
        using Suc [of "Inr ([], a) # ins'"] datagram dec
        by (auto simp: udp_framing.framed_frame [OF assms(1) protobuf_frame [OF assms(2)]] message_in_message)
    qed
  qed (use Suc in \<open>auto simp: udp_framing.framed_Nil [OF assms(1)] udp_framing.framed_io_error [OF assms(1)]
      udp_framing.framed_no_frame [OF assms(1)]\<close>)
qed

text \<open>A datagram that ends is dealt with in a number of rounds that depends on nothing else.\<close>

lemma framed_datagram:
  assumes framing: "udp_framing framed" and "message_decoder dec" and "message_in dec b = Some m"
  shows "\<exists>k. \<forall>n ins over. packets_of (framed (k + n) Decode_Io (protobuf_decode dec) (Observed (Inr (b, a) # ins) over)) =
    stream_append (case m of None \<Rightarrow> [] | Some p \<Rightarrow> (case a of V4 _ \<Rightarrow> [] | V6 a6 \<Rightarrow> [Inr (p, a6)]))
      (packets_of (framed n Decode_Io (protobuf_decode dec) (Observed ins over)))"
  using assms(3)
proof (induction rule: message_in_induct)
  case empty
  show ?case by (intro exI [of _ 1]) (simp add: udp_framing.framed_no_frame [OF framing])
next
  case (message b m rest)
  then show ?case
    by (intro exI [of _ "Suc (Suc 0)"])
      (simp add: udp_framing.framed_frame [OF framing protobuf_frame [OF assms(2)]]
        udp_framing.framed_no_frame [OF framing])
next
  case (refused b e rest y)
  then obtain k where "packets_of (framed (k + n) Decode_Io (protobuf_decode dec) (Observed (Inr (rest, a) # ins) over)) =
      stream_append (case y of None \<Rightarrow> [] | Some p \<Rightarrow> (case a of V4 _ \<Rightarrow> [] | V6 a6 \<Rightarrow> [Inr (p, a6)]))
        (packets_of (framed n Decode_Io (protobuf_decode dec) (Observed ins over)))" for n ins over
    by blast
  then show ?case
    using refused(1,2)
    by (intro exI [of _ "Suc k"]) (simp add: udp_framing.framed_refused [OF framing protobuf_refused])
qed

text \<open>So all that is received is yielded after some rounds, and no more comes later.\<close>

lemma framed_received:
  assumes "udp_framing framed" and "message_decoder dec"
  shows "\<exists>N. \<forall>n\<ge>N. packets_of (framed n Decode_Io (protobuf_decode dec) (Observed ins over)) =
    Observed (received dec ins) (over \<and> \<not> stalls dec ins)"
proof (induction ins)
  case Nil
  have "framed (Suc n) Decode_Io (protobuf_decode dec) (Observed [] over) = Observed [] over" for n
    by (rule udp_framing.framed_Nil [OF assms(1)])
  then show ?case by (intro exI [of _ 1]) (auto simp: Suc_le_eq dest!: gr0_implies_Suc)
next
  case (Cons i ins)
  then obtain N where N: "n \<ge> N \<Longrightarrow> packets_of (framed n Decode_Io (protobuf_decode dec) (Observed ins over)) =
    Observed (received dec ins) (over \<and> \<not> stalls dec ins)" for n by blast
  show ?case
  proof (cases i)
    case (Inl e)
    have step: "packets_of (framed (Suc n) Decode_Io (protobuf_decode dec) (Observed (i # ins) over)) =
        Observed (received dec (i # ins)) (over \<and> \<not> stalls dec (i # ins))" if "n \<ge> N" for n
      using N [OF that] Inl by (simp add: udp_framing.framed_io_error [OF assms(1)] stream_append_def)
    have "packets_of (framed n Decode_Io (protobuf_decode dec) (Observed (i # ins) over)) =
        Observed (received dec (i # ins)) (over \<and> \<not> stalls dec (i # ins))" if "n \<ge> Suc N" for n
      using step [of "n - 1"] that by (cases n) simp_all
    then show ?thesis by blast
  next
    case (Inr d)
    obtain b a where d: "d = (b, a)" by (cases d)
    show ?thesis
    proof (cases "message_in dec b")
      case None
      then show ?thesis
        using framed_prefix [OF assms, of _ "i # ins" over] Inr d by (intro exI [of _ 0]) (auto intro!: observed_eqI)
    next
      case (Some m)
      obtain k where k: "packets_of (framed (k + n) Decode_Io (protobuf_decode dec) (Observed (Inr (b, a) # ins) over)) =
          stream_append (case m of None \<Rightarrow> [] | Some p \<Rightarrow> (case a of V4 _ \<Rightarrow> [] | V6 a6 \<Rightarrow> [Inr (p, a6)]))
            (packets_of (framed n Decode_Io (protobuf_decode dec) (Observed ins over)))" for n
        using framed_datagram [OF assms Some, of a] by blast
      have "packets_of (framed n Decode_Io (protobuf_decode dec) (Observed (i # ins) over)) =
          Observed (received dec (i # ins)) (over \<and> \<not> stalls dec (i # ins))" if "n \<ge> k + N" for n
        using k [of "n - k"] N [of "n - k"] that Inr d Some
        by (auto simp: stream_append_def split: option.splits)
      then show ?thesis by blast
    qed
  qed
qed

lemma tokio_packet_receiver_packets:
  "observe (new_receiver_socket ip port) = Some (Inr s) \<Longrightarrow>
     tokio_packet_receiver framed dec observe arrivals ip port =
       packets_of (framed Decode_Io (protobuf_decode dec) (arrivals s))"
  by (simp add: tokio_packet_receiver_def receive_packets_def udp_receive_defs packets_of_def
      stream_filter_map_def map_filter_map_filter)

text \<open>A datagram that holds one encoded packet is received as that packet, in the first round.\<close>

lemma encoded_packet_received:
  assumes "packet_codec encode decode" and "udp_framing framed"
    and "observe (new_receiver_socket ip port) = Some (Inr s)"
    and "items (arrivals s) = [Inr (encode p, V6 a)]" and "payload p \<noteq> None" and "0 < rounds"
  shows "items (tokio_packet_receiver (framed rounds) decode observe arrivals ip port) = [Inr (p, a)]"
proof -
  have codec: "message_codec encode decode" using assms(1) by (rule packet_codec.axioms(1))
  then have decoder: "message_decoder decode" by (rule message_codec.axioms(1))
  have frame: "protobuf_decode decode (encode p) = (Inr (Some p), [])"
    by (rule message_codec.frame_of_encoding [OF codec packet_codec.oneof_written [OF assms(1,5)]])
  obtain n where n: "rounds = Suc n" using assms(6) gr0_implies_Suc by blast
  obtain over where arrived: "arrivals s = Observed [Inr (encode p, V6 a)] over" using assms(4) by (cases "arrivals s") simp
  show ?thesis
    using framed_prefix [OF assms(2) decoder, of n "[Inr ([], V6 a)]" over]
    by (simp add: tokio_packet_receiver_packets [of observe, OF assms(3)] arrived n
        udp_framing.framed_frame [where dec = "protobuf_decode decode", OF assms(2) frame])
qed

section \<open>Properties\<close>

text \<open>
  C19: Once its socket is ready, the receiver yields, for the arrivals in their order, the
  error of a socket that fails, nothing for a datagram from IPv4 or one that holds no packet, and for any other
  datagram from IPv6 its packet with the address of the sender: at every moment a beginning of that, after some
  rounds of the framing all of it, and it ends when the arrivals do. The exception is a datagram on
  which decoding never ends, as when the decoder refuses it without consuming a byte: it ends nothing, but
  whatever arrives behind it is never yielded.
\<close>

theorem packets_received:
  assumes "udp_framing framed" and "message_decoder dec"
    and "observe (new_receiver_socket ip port) = Some (Inr s)"
  shows "prefix (items (tokio_packet_receiver (framed n) dec observe arrivals ip port))
      (received dec (items (arrivals s))) \<and>
    (\<exists>N. \<forall>n\<ge>N. tokio_packet_receiver (framed n) dec observe arrivals ip port =
      Observed (received dec (items (arrivals s))) (ended (arrivals s) \<and> \<not> stalls dec (items (arrivals s)))) \<and>
    (\<forall>xs b e a ys. items (arrivals s) = xs @ Inr (b, a) # ys \<and> b \<noteq> [] \<and> dec b = (Inl e, b) \<longrightarrow>
      prefix (items (tokio_packet_receiver (framed n) dec observe arrivals ip port)) (received dec xs))"
proof -
  note receiver = tokio_packet_receiver_packets [of observe, OF assms(3)]
  have behind: "received dec (xs @ Inr (b, a) # ys) = received dec xs" if "message_in dec b = None" for xs b a ys
    using that by (induction dec xs rule: received.induct) (auto split: option.split)
  obtain ins over where arrived: "arrivals s = Observed ins over" by (cases "arrivals s")
  have pre: "prefix (items (tokio_packet_receiver (framed n) dec observe arrivals ip port)) (received dec ins)"
    using framed_prefix [OF assms(1,2)] by (simp add: receiver arrived)
  moreover have "\<exists>N. \<forall>n\<ge>N. tokio_packet_receiver (framed n) dec observe arrivals ip port =
      Observed (received dec ins) (over \<and> \<not> stalls dec ins)"
    using framed_received [OF assms(1,2)] by (simp add: receiver arrived)
  moreover have "prefix (items (tokio_packet_receiver (framed n) dec observe arrivals ip port)) (received dec xs)"
    if "ins = xs @ Inr (b, a) # ys" "b \<noteq> []" "dec b = (Inl e, b)" for xs b e a ys
    using pre behind [OF unconsumed_never_ends [of _ dec, OF that(2,3)]] by (simp add: that(1))
  ultimately show ?thesis unfolding arrived observed.sel by blast
qed

abbreviation example_packet :: discovery_packet where
  "example_packet \<equiv> packet_from_request \<lparr>req_response_collector_port = 0\<rparr>"

text \<open>A decoder that does not consume ten bytes of an endless varint, and otherwise reads packets.\<close>

definition stalling_decoder :: "discovery_packet message_decoder" where
  "stalling_decoder b = (if b = replicate 10 0xFF then (Inl (Prost_Error 1), b) else decode_packet b)"

interpretation stalling: message_decoder stalling_decoder
  by unfold_locales (auto simp: stalling_decoder_def split: if_splits intro: wire.decode_whole)

lemma ready_socket: "observe_after 3 fresh_world (new_receiver_socket get_discovery_ip 50000) = Some (Inr 1)"
  by (simp add: observe_after_def receiver_socket_defs call_defs try_await_syscall eval_nat_numeral fresh_world_defs)

lemma example_messages:
  "message_in decode_packet (encode_packet p) = Some (if payload p = None then None else Some p)"
  "message_in decode_packet [1] = Some None" "message_in stalling_decoder [1] = Some None"
  "message_in stalling_decoder [10, 0] = Some (Some example_packet)"
proof -
  show wire: "message_in decode_packet (encode_packet p) = Some (if payload p = None then None else Some p)" for p
  proof (cases "payload p")
    case None
    then show ?thesis by (simp add: encode_packet_def)
  next
    case (Some m)
    then show ?thesis by (simp add: message_in_message [where dec = decode_packet, OF wire.oneof_written wire.decode_encode])
  qed
  have refused: "decode_packet [1] = (Inl (Prost_Error 0), [])"
    by (simp add: decode_packet_def decode_payload.simps [of _ "[1]"] decode_key_def
        decode_varint_small skip_field_def)
  then show "message_in decode_packet [1] = Some None" by (simp add: message_in_refused)
  have other: "stalling_decoder b = decode_packet b" if "length b < 10" for b
    using that by (auto simp: stalling_decoder_def)
  from refused show "message_in stalling_decoder [1] = Some None" by (simp add: message_in_refused other)
  have "encode_packet example_packet = [10, 0]"
    by (simp add: encode_packet_def packet_from_request_def encode_message_field_def encode_u32_message_def
      encode_varint.simps [of 0])
  then show "message_in stalling_decoder [10, 0] = Some (Some example_packet)"
    using wire.decode_encode [of example_packet] by (simp add: message_in_message other)
qed

definition example_arrivals :: "incoming list" where
  "example_arrivals =
     [Inr ([1], V6 wildcard_addr), Inl (Io_Error 5), Inr ([10, 0], V6 wildcard_addr),
      Inr (replicate 10 0xFF, V6 wildcard_addr), Inr ([10, 0], V6 wildcard_addr)]"

theorem packets_received_witness:
  "\<exists>N. \<forall>n\<ge>N. tokio_packet_receiver (frame_datagrams n) stalling_decoder (observe_after 3 fresh_world)
     (\<lambda>s. Observed example_arrivals False) get_discovery_ip 50000
   = Observed [Inl (Io_Error 5), Inr (example_packet, wildcard_addr)] False"
proof -
  have "message_in stalling_decoder (replicate 10 0xFF) = None"
    by (rule unconsumed_never_ends [of _ _ "Prost_Error 1"]) (simp_all add: stalling_decoder_def)
  then have "received stalling_decoder example_arrivals = [Inl (Io_Error 5), Inr (example_packet, wildcard_addr)]"
    by (simp add: example_messages example_arrivals_def del: replicate.simps)
  then show ?thesis
    using packets_received [of frame_datagrams stalling_decoder "observe_after 3 fresh_world" get_discovery_ip 50000 1
        _ "\<lambda>s. Observed example_arrivals False",
        OF framing.udp_framing_axioms stalling.message_decoder_axioms ready_socket, THEN conjunct2, THEN conjunct1]
    by simp
qed

end
