(* ===== verification/Process.thy ===== *)
theory Process
  imports Task_Runtime
begin

text \<open>
  \<^verbatim>\<open>main/src/process.rs\<close>: running an external command with its input and output
  redirected, and probing whether a command works.
\<close>

datatype process_error = Child_Process_Creation io_error | Redirect_Std_Io | External_Command

text \<open>What \<^verbatim>\<open>Display\<close> writes of it, derived from the attributes \<^verbatim>\<open>#[error("...")]\<close>.\<close>

fun show_process_error :: "process_error \<Rightarrow> string" where
  "show_process_error (Child_Process_Creation e) = ''Failed in create a child process''"
| "show_process_error Redirect_Std_Io = ''Failed to redirect standard I/O''"
| "show_process_error External_Command = ''External command failed''"

definition read_stdout :: "child \<Rightarrow> (process_error, byte list) result task" where
  "read_stdout process =
     (case child_stdout process of
        None \<Rightarrow> Ret (Inl Redirect_Std_Io)
      | Some stdout \<Rightarrow>
          try_await Child_Process_Creation (read_to_end stdout) (\<lambda>buffer.
          Ret (Inr buffer)))"

definition eval :: "string \<Rightarrow> string list \<Rightarrow> byte list \<Rightarrow> (process_error, byte list) result task" where
  "eval command args stdin =
     try_await Child_Process_Creation
       (spawn \<lparr>cmd_program = command, cmd_args = args, cmd_envs = [(''NO_COLOR'', ''1'')],
          cmd_stdin = Piped, cmd_stdout = Piped, cmd_stderr = Inherit\<rparr>) (\<lambda>process.
     case child_stdin process of
       None \<Rightarrow> Ret (Inl Redirect_Std_Io)
     | Some stdin_pipe \<Rightarrow>
         try_await Child_Process_Creation (write_all stdin_pipe stdin) (\<lambda>_.
         task_bind (close_pipe stdin_pipe) (\<lambda>_.
         try_await Child_Process_Creation (wait_child (child_pid process)) (\<lambda>success.
         if \<not> success then Ret (Inl External_Command) else read_stdout process))))"

definition run :: "string \<Rightarrow> string list \<Rightarrow> (process_error, byte list) result task" where
  "run command args =
     try_await Child_Process_Creation
       (spawn \<lparr>cmd_program = command, cmd_args = args, cmd_envs = [(''NO_COLOR'', ''1'')],
          cmd_stdin = Null, cmd_stdout = Piped, cmd_stderr = Inherit\<rparr>) (\<lambda>process.
     try_await Child_Process_Creation (wait_child (child_pid process)) (\<lambda>success.
     if \<not> success then Ret (Inl External_Command) else read_stdout process))"

definition probe :: "string \<Rightarrow> string list \<Rightarrow> bool task" where
  "probe command args =
     task_bind
       (spawn \<lparr>cmd_program = command, cmd_args = args, cmd_envs = [],
          cmd_stdin = Null, cmd_stdout = Null, cmd_stderr = Inherit\<rparr>) (\<lambda>spawned.
     case spawned of
       Inl e \<Rightarrow> Ret False
     | Inr process \<Rightarrow>
         task_bind (wait_child (child_pid process)) (\<lambda>waited.
         case waited of
           Inl e \<Rightarrow> Ret False
         | Inr success \<Rightarrow> if success then Ret True else Ret False))"

text \<open>
  Every run of \<open>eval\<close> leaves one of these traces: it stops at the first call that fails, and
  returns the output only when all have succeeded.
\<close>

inductive eval_outcome :: "command \<Rightarrow> byte list \<Rightarrow> event list \<Rightarrow> (process_error, byte list) result \<Rightarrow> bool"
  for c inp where
  not_spawned: "eval_outcome c inp [Ev_Spawn c (Inl e)] (Inl (Child_Process_Creation e))"
| no_stdin: "child_stdin p = None \<Longrightarrow> eval_outcome c inp [Ev_Spawn c (Inr p)] (Inl Redirect_Std_Io)"
| not_written: "child_stdin p = Some h \<Longrightarrow>
    eval_outcome c inp [Ev_Spawn c (Inr p), Ev_Write_All h inp (Inl e)] (Inl (Child_Process_Creation e))"
| not_waited: "child_stdin p = Some h \<Longrightarrow>
    eval_outcome c inp [Ev_Spawn c (Inr p), Ev_Write_All h inp (Inr ()), Ev_Close h,
      Ev_Wait (child_pid p) (Inl e)] (Inl (Child_Process_Creation e))"
| exit_failure: "child_stdin p = Some h \<Longrightarrow>
    eval_outcome c inp [Ev_Spawn c (Inr p), Ev_Write_All h inp (Inr ()), Ev_Close h,
      Ev_Wait (child_pid p) (Inr False)] (Inl External_Command)"
| no_stdout: "child_stdin p = Some h \<Longrightarrow> child_stdout p = None \<Longrightarrow>
    eval_outcome c inp [Ev_Spawn c (Inr p), Ev_Write_All h inp (Inr ()), Ev_Close h,
      Ev_Wait (child_pid p) (Inr True)] (Inl Redirect_Std_Io)"
| read_out: "child_stdin p = Some h \<Longrightarrow> child_stdout p = Some s \<Longrightarrow>
    eval_outcome c inp [Ev_Spawn c (Inr p), Ev_Write_All h inp (Inr ()), Ev_Close h,
      Ev_Wait (child_pid p) (Inr True), Ev_Read_To_End s out] (map_err Child_Process_Creation out)"

abbreviation eval_command :: "string \<Rightarrow> string list \<Rightarrow> command" where
  "eval_command command args \<equiv>
     \<lparr>cmd_program = command, cmd_args = args, cmd_envs = [(''NO_COLOR'', ''1'')],
       cmd_stdin = Piped, cmd_stdout = Piped, cmd_stderr = Inherit\<rparr>"

lemma exec_eval:
  assumes "exec (eval command args stdin) w = (r, w')"
  shows "\<exists>es. trace w' = trace w @ es \<and> eval_outcome (eval_command command args) stdin es r"
  using assms
  by (auto simp: eval_def read_stdout_def call_defs exec_simps
      split: sum.splits option.splits if_splits
      intro!: eval_outcome.intros read_out [where out = "Inl _", unfolded map_err_def, simplified]
        read_out [where out = "Inr _", unfolded map_err_def, simplified])

text \<open>Likewise for \<open>run\<close>, which has no input to write.\<close>

inductive run_outcome :: "command \<Rightarrow> event list \<Rightarrow> (process_error, byte list) result \<Rightarrow> bool"
  for c where
  run_not_spawned: "run_outcome c [Ev_Spawn c (Inl e)] (Inl (Child_Process_Creation e))"
| run_not_waited: "run_outcome c [Ev_Spawn c (Inr p), Ev_Wait (child_pid p) (Inl e)]
    (Inl (Child_Process_Creation e))"
| run_exit_failure: "run_outcome c [Ev_Spawn c (Inr p), Ev_Wait (child_pid p) (Inr False)]
    (Inl External_Command)"
| run_no_stdout: "child_stdout p = None \<Longrightarrow>
    run_outcome c [Ev_Spawn c (Inr p), Ev_Wait (child_pid p) (Inr True)] (Inl Redirect_Std_Io)"
| run_read_out: "child_stdout p = Some s \<Longrightarrow>
    run_outcome c [Ev_Spawn c (Inr p), Ev_Wait (child_pid p) (Inr True), Ev_Read_To_End s out]
      (map_err Child_Process_Creation out)"

abbreviation run_command :: "string \<Rightarrow> string list \<Rightarrow> command" where
  "run_command command args \<equiv>
     \<lparr>cmd_program = command, cmd_args = args, cmd_envs = [(''NO_COLOR'', ''1'')],
       cmd_stdin = Null, cmd_stdout = Piped, cmd_stderr = Inherit\<rparr>"

lemma exec_run:
  assumes "exec (run command args) w = (r, w')"
  shows "\<exists>es. trace w' = trace w @ es \<and> run_outcome (run_command command args) es r"
  using assms
  by (auto simp: run_def read_stdout_def call_defs exec_simps
      split: sum.splits option.splits if_splits
      intro!: run_outcome.intros run_read_out [where out = "Inl _", unfolded map_err_def, simplified]
        run_read_out [where out = "Inr _", unfolded map_err_def, simplified])

inductive_cases run_outcome_OkE: "run_outcome c es (Inr out)"
inductive_cases eval_outcome_OkE: "eval_outcome c inp es (Inr out)"

text \<open>Running a command sends no datagram and submits no response.\<close>

lemma quiet_outcome:
  assumes "eval_outcome c inp es r \<or> run_outcome c es r"
  shows "set es \<subseteq> {e. case e of Ev_Spawn _ _ \<Rightarrow> True | Ev_Write_All _ _ _ \<Rightarrow> True | Ev_Close _ \<Rightarrow> True
    | Ev_Wait _ _ \<Rightarrow> True | Ev_Read_To_End _ _ \<Rightarrow> True | _ \<Rightarrow> False}"
  using assms by (auto elim!: eval_outcome.cases run_outcome.cases)

abbreviation probe_command :: "string \<Rightarrow> string list \<Rightarrow> command" where
  "probe_command command args \<equiv>
     \<lparr>cmd_program = command, cmd_args = args, cmd_envs = [],
       cmd_stdin = Null, cmd_stdout = Null, cmd_stderr = Inherit\<rparr>"

section \<open>Properties\<close>

text \<open>
  C25: Evaluating a command makes its calls in one order: spawn with both pipes, write all of
  the input, close the pipe, wait, read the output. It stops at the first call that fails, with the error
  of that call, and returns output only of a process that exited with success.
\<close>

theorem eval_outcomes:
  "\<exists>es. trace (snd (exec (eval command args stdin) w)) = trace w @ es \<and>
     eval_outcome (eval_command command args) stdin es (fst (exec (eval command args stdin) w))"
  by (rule exec_eval) simp

text \<open>
  Running a command spawns it without input, waits, and reads its output; it too stops at
  the first failure and returns output only of a process that exited with success.
\<close>

theorem run_outcomes:
  "\<exists>es. trace (snd (exec (run command args) w)) = trace w @ es \<and>
     run_outcome (run_command command args) es (fst (exec (run command args) w))"
  by (rule exec_run) simp

text \<open>
  A probe answers yes exactly when the command was spawned and exited with success;
  it has no other effect, and any failure is the answer no, never an error.
\<close>

theorem probe_succeeds:
  "\<exists>es. trace (snd (exec (probe command args) w)) = trace w @ es \<and>
     ((\<exists>e. es = [Ev_Spawn (probe_command command args) (Inl e)]) \<or>
      (\<exists>p r. es = [Ev_Spawn (probe_command command args) (Inr p), Ev_Wait (child_pid p) r])) \<and>
     (fst (exec (probe command args) w) \<longleftrightarrow>
       (\<exists>p. es = [Ev_Spawn (probe_command command args) (Inr p), Ev_Wait (child_pid p) (Inr True)]))"
  by (auto simp: probe_def call_defs exec_simps split: sum.splits)

end
