(* ===== verification/Process_Pipes.thy ===== *)
theory Process_Pipes
  imports Process
begin

text \<open>
  The child process of \<^verbatim>\<open>main/src/process.rs\<close> and the pipe of its output, which holds a bounded
  number of bytes: \<open>Process\<close> takes each call for one step, here the child runs beside its parent and
  a full pipe blocks it. The parent waits for the exit of the child before it reads.
\<close>

datatype parent =
    Parent_Waiting \<comment> \<open>in \<^verbatim>\<open>process.wait()\<close>\<close>
  | Parent_Reading nat \<comment> \<open>in \<^verbatim>\<open>read_to_end\<close>, with the bytes read so far\<close>
  | Parent_Returned nat

record pipe_state =
  ps_parent :: parent
  ps_buffered :: nat
  ps_unwritten :: nat
  ps_exited :: bool

text \<open>The parent has spawned a child that is going to write \<open>out_len\<close> bytes and exit with success.\<close>

definition spawned :: "nat \<Rightarrow> pipe_state" where
  "spawned out_len =
     \<lparr>ps_parent = Parent_Waiting, ps_buffered = 0, ps_unwritten = out_len, ps_exited = False\<rparr>"

inductive pipe_step :: "nat \<Rightarrow> pipe_state \<Rightarrow> pipe_state \<Rightarrow> bool" for capacity where
  child_writes: "0 < ps_unwritten s \<Longrightarrow> ps_buffered s < capacity \<Longrightarrow>
    pipe_step capacity s (s\<lparr>ps_unwritten := ps_unwritten s - 1, ps_buffered := ps_buffered s + 1\<rparr>)"
| child_exits: "ps_unwritten s = 0 \<Longrightarrow> \<not> ps_exited s \<Longrightarrow> pipe_step capacity s (s\<lparr>ps_exited := True\<rparr>)"
| wait_returns: "ps_parent s = Parent_Waiting \<Longrightarrow> ps_exited s \<Longrightarrow>
    pipe_step capacity s (s\<lparr>ps_parent := Parent_Reading 0\<rparr>)"
| parent_reads: "ps_parent s = Parent_Reading n \<Longrightarrow> 0 < ps_buffered s \<Longrightarrow>
    pipe_step capacity s (s\<lparr>ps_parent := Parent_Reading (Suc n), ps_buffered := ps_buffered s - 1\<rparr>)"
| end_of_file: "ps_parent s = Parent_Reading n \<Longrightarrow> ps_buffered s = 0 \<Longrightarrow> ps_exited s \<Longrightarrow>
    pipe_step capacity s (s\<lparr>ps_parent := Parent_Returned n\<rparr>)"

abbreviation pipe_reachable :: "nat \<Rightarrow> nat \<Rightarrow> pipe_state \<Rightarrow> bool" where
  "pipe_reachable capacity out_len \<equiv> (pipe_step capacity)\<^sup>*\<^sup>* (spawned out_len)"

definition pipe_invariant :: "nat \<Rightarrow> nat \<Rightarrow> pipe_state \<Rightarrow> bool" where
  "pipe_invariant capacity out_len s \<longleftrightarrow>
     ps_buffered s \<le> capacity \<and> (ps_exited s \<longrightarrow> ps_unwritten s = 0) \<and>
     (case ps_parent s of
        Parent_Waiting \<Rightarrow> ps_buffered s + ps_unwritten s = out_len
      | Parent_Reading n \<Rightarrow> ps_exited s \<and> n + ps_buffered s = out_len \<and> out_len \<le> capacity
      | Parent_Returned n \<Rightarrow> ps_exited s \<and> n = out_len \<and> out_len \<le> capacity)"

lemma pipe_invariant:
  assumes "pipe_reachable capacity out_len s"
  shows "pipe_invariant capacity out_len s"
  using assms
proof (induction rule: rtranclp_induct)
  case base
  show ?case by (simp add: pipe_invariant_def spawned_def)
next
  case (step s t)
  from step.hyps(2) step.IH show ?case
    by (cases rule: pipe_step.cases) (auto simp: pipe_invariant_def split: parent.splits)
qed

lemma child_writes_all:
  "k \<le> out_len \<Longrightarrow> k \<le> capacity \<Longrightarrow>
     pipe_reachable capacity out_len ((spawned out_len)\<lparr>ps_unwritten := out_len - k, ps_buffered := k\<rparr>)"
proof (induction k)
  case 0
  then show ?case by (simp add: spawned_def)
next
  case (Suc k)
  let ?s = "(spawned out_len)\<lparr>ps_unwritten := out_len - k, ps_buffered := k\<rparr>"
  have "pipe_step capacity ?s (?s\<lparr>ps_unwritten := ps_unwritten ?s - 1, ps_buffered := ps_buffered ?s + 1\<rparr>)"
    by (rule pipe_step.child_writes) (use Suc.prems in auto)
  then have "pipe_step capacity ?s ((spawned out_len)\<lparr>ps_unwritten := out_len - Suc k, ps_buffered := Suc k\<rparr>)"
    by (simp add: spawned_def)
  with Suc show ?case by (auto intro: rtranclp.rtrancl_into_rtrancl)
qed

text \<open>Once the child has exited, the parent reads all there is and returns.\<close>

lemma parent_reads_all:
  "ps_parent s = Parent_Reading n \<Longrightarrow> ps_exited s \<Longrightarrow>
     (pipe_step capacity)\<^sup>*\<^sup>* s (s\<lparr>ps_parent := Parent_Returned (n + ps_buffered s), ps_buffered := 0\<rparr>)"
proof (induction "ps_buffered s" arbitrary: s n)
  case 0
  then have "s\<lparr>ps_parent := Parent_Returned (n + ps_buffered s), ps_buffered := 0\<rparr>
      = s\<lparr>ps_parent := Parent_Returned n\<rparr>"
    by (cases s) simp
  moreover have "pipe_step capacity s (s\<lparr>ps_parent := Parent_Returned n\<rparr>)"
    using 0 by (intro pipe_step.end_of_file) simp_all
  ultimately show ?case by (simp only: r_into_rtranclp)
next
  case (Suc k)
  let ?t = "s\<lparr>ps_parent := Parent_Reading (Suc n), ps_buffered := ps_buffered s - 1\<rparr>"
  have "pipe_step capacity s ?t" by (rule pipe_step.parent_reads) (use Suc in auto)
  moreover have "(pipe_step capacity)\<^sup>*\<^sup>* ?t
      (?t\<lparr>ps_parent := Parent_Returned (Suc n + ps_buffered ?t), ps_buffered := 0\<rparr>)"
    by (rule Suc.hyps(1)) (use Suc.hyps(2) Suc.prems in auto)
  then have "(pipe_step capacity)\<^sup>*\<^sup>* ?t (s\<lparr>ps_parent := Parent_Returned (n + ps_buffered s), ps_buffered := 0\<rparr>)"
    using Suc.hyps(2) by simp
  ultimately show ?case by (rule converse_rtranclp_into_rtranclp)
qed

lemma parent_returns:
  assumes "out_len \<le> capacity"
  shows "\<exists>s. pipe_reachable capacity out_len s \<and> ps_parent s = Parent_Returned out_len"
proof -
  let ?s = "(spawned out_len)\<lparr>ps_unwritten := 0, ps_buffered := out_len\<rparr>"
  let ?t = "?s\<lparr>ps_exited := True\<rparr>" and ?u = "?s\<lparr>ps_exited := True, ps_parent := Parent_Reading 0\<rparr>"
  have "pipe_reachable capacity out_len ?s" using child_writes_all [of out_len out_len capacity] assms by simp
  moreover have "pipe_step capacity ?s ?t"
    by (rule pipe_step.child_exits) (simp_all add: spawned_def)
  moreover have "pipe_step capacity ?t ?u"
    using pipe_step.wait_returns [of ?t capacity] by (simp add: spawned_def)
  moreover have "(pipe_step capacity)\<^sup>*\<^sup>* ?u (?u\<lparr>ps_parent := Parent_Returned out_len, ps_buffered := 0\<rparr>)"
    using parent_reads_all [of ?u 0 capacity] by simp
  ultimately have "pipe_reachable capacity out_len (?u\<lparr>ps_parent := Parent_Returned out_len, ps_buffered := 0\<rparr>)"
    by (meson rtranclp.rtrancl_into_rtrancl rtranclp_trans)
  then show ?thesis by (intro exI) auto
qed

text \<open>A full pipe stops both: the child cannot write, so it does not exit, so the parent does not read.\<close>

lemma full_pipe_stuck:
  "ps_parent s = Parent_Waiting \<Longrightarrow> ps_buffered s = capacity \<Longrightarrow> 0 < ps_unwritten s \<Longrightarrow> \<not> ps_exited s \<Longrightarrow>
     \<not> pipe_step capacity s t"
  by (auto elim: pipe_step.cases)

lemma waiting_progress:
  assumes "pipe_invariant capacity out_len s" and "ps_parent s = Parent_Waiting" and "out_len \<le> capacity"
  shows "\<exists>t. pipe_step capacity s t"
proof (cases "ps_unwritten s = 0")
  case True
  then show ?thesis
    using pipe_step.child_exits [of s capacity] pipe_step.wait_returns [of s capacity] assms(2)
    by (cases "ps_exited s") auto
next
  case False
  then have "ps_buffered s < capacity" using assms by (simp add: pipe_invariant_def)
  then show ?thesis using pipe_step.child_writes [of s capacity] False by auto
qed

section \<open>Properties\<close>

text \<open>
  C29: A command that waits for its child before reading returns the output,
  all of it, exactly when the output fits the pipe; a child that writes more than that blocks for ever,
  and its parent with it.
\<close>

theorem command_returns_iff_output_fits:
  "((\<exists>s. pipe_reachable capacity out_len s \<and> ps_parent s = Parent_Returned n) \<longleftrightarrow>
      n = out_len \<and> out_len \<le> capacity) \<and>
   ((\<exists>s. pipe_reachable capacity out_len s \<and> ps_parent s = Parent_Waiting \<and> (\<nexists>t. pipe_step capacity s t)) \<longleftrightarrow>
      capacity < out_len)"
proof (intro conjI iffI)
  assume "\<exists>s. pipe_reachable capacity out_len s \<and> ps_parent s = Parent_Returned n"
  then show "n = out_len" and "out_len \<le> capacity"
    using pipe_invariant [of capacity out_len] by (force simp: pipe_invariant_def)+
next
  assume "n = out_len \<and> out_len \<le> capacity"
  then show "\<exists>s. pipe_reachable capacity out_len s \<and> ps_parent s = Parent_Returned n"
    using parent_returns by simp
next
  assume "\<exists>s. pipe_reachable capacity out_len s \<and> ps_parent s = Parent_Waiting \<and> (\<nexists>t. pipe_step capacity s t)"
  then show "capacity < out_len" by (meson not_le pipe_invariant waiting_progress)
next
  assume "capacity < out_len"
  let ?s = "(spawned out_len)\<lparr>ps_unwritten := out_len - capacity, ps_buffered := capacity\<rparr>"
  have "pipe_reachable capacity out_len ?s" by (rule child_writes_all) (use \<open>capacity < out_len\<close> in auto)
  moreover have "\<not> pipe_step capacity ?s t" for t
    by (rule full_pipe_stuck) (use \<open>capacity < out_len\<close> in \<open>auto simp: spawned_def\<close>)
  ultimately show "\<exists>s. pipe_reachable capacity out_len s \<and> ps_parent s = Parent_Waiting \<and>
      (\<nexists>t. pipe_step capacity s t)"
    by (intro exI [of _ ?s]) (simp add: spawned_def)
qed

end
