(* ===== verification/Ip_Neighbor.thy ===== *)
theory Ip_Neighbor
  imports Process Discovery Udp
begin

text \<open>
  \<^verbatim>\<open>main/src/network/ip_neighbor\<close>: the neighbours on the same links, found by an external
  command of the operating system. The CSV and JSON readers (\<^verbatim>\<open>csv\<close>, \<^verbatim>\<open>serde_json\<close>)
  are parameters: a row is a record or an error, a document a list of records or an error.
\<close>

section \<open>Neighbours\<close>

record ip_neighbor =
  nb_address :: ipv6_addr
  network_interface_index :: u32

definition is_link_local :: "ip_neighbor \<Rightarrow> bool" where
  "is_link_local n \<longleftrightarrow> take 2 (octets (nb_address n)) = [0xFE, 0x80]"

definition get_socket_address :: "ip_neighbor \<Rightarrow> u16 \<Rightarrow> sockaddr_v6" where
  "get_socket_address n port =
     (let scope = (if is_link_local n then network_interface_index n else 0) in
      socket_addr_v6 (nb_address n) port 0 scope)"

definition is_valid_ip :: "ipv6_addr \<Rightarrow> bool" where
  "is_valid_ip ip \<longleftrightarrow> \<not> is_loopback ip \<and> \<not> is_unspecified ip \<and> \<not> is_multicast ip"

lemma get_socket_address_sel [simp]:
  "sa_ip (get_socket_address n p) = nb_address n"
  "sa_port (get_socket_address n p) = p"
  "sa_flowinfo (get_socket_address n p) = 0"
  "sa_scope_id (get_socket_address n p) = (if is_link_local n then network_interface_index n else 0)"
  by (simp_all add: get_socket_address_def Let_def)

lemma is_link_local_segment:
  "is_link_local n \<longleftrightarrow> hd (segments (nb_address n)) = 0xFE80"
proof (cases "nb_address n")
  case (Ipv6_Addr a b c d e f g h)
  have "ucast (drop_bit 8 a) = (0xFE :: u8) \<and> ucast a = (0x80 :: u8) \<longleftrightarrow> a = 0xFE80"
  proof
    assume bytes: "ucast (drop_bit 8 a) = (0xFE :: u8) \<and> ucast a = (0x80 :: u8)"
    have "from_be_bytes (be_bytes a ! 0) (be_bytes a ! Suc 0) = from_be_bytes 0xFE 0x80"
      using bytes by (simp add: be_bytes_def)
    also have "from_be_bytes 0xFE 0x80 = 0xFE80"
      by (simp add: from_be_bytes_def)
    finally show "a = 0xFE80" by simp
  qed simp
  then show ?thesis
    by (simp add: is_link_local_def octets_def be_bytes_def Ipv6_Addr)
qed

lemma discovery_ip_is_multicast: "is_multicast get_discovery_ip"
  by (simp add: is_multicast_def get_discovery_ip)

section \<open>Scanners\<close>

datatype csv_error = Csv_Error int
datatype json_error = Json_Error int

datatype ip_neighbor_scan_error =
    Child_Process process_error | Parse_Csv csv_error | Parse_Json json_error

fun show_ip_neighbor_scan_error :: "ip_neighbor_scan_error \<Rightarrow> string" where
  "show_ip_neighbor_scan_error (Child_Process e) = ''Failed in running an external command''"
| "show_ip_neighbor_scan_error (Parse_Csv e) = ''Failed to parse the CSV output of a child process''"
| "show_ip_neighbor_scan_error (Parse_Json e) = ''Failed to parse the JSON output of a child process''"

record ip_neighbor_scanner =
  supports_current_operating_system :: "bool task"
  scan_neighbors :: "(ip_neighbor_scan_error, ip_neighbor list) result task"

definition dummy_scanner :: ip_neighbor_scanner where
  "dummy_scanner =
     \<lparr>supports_current_operating_system = Ret True, scan_neighbors = Ret (Inr [])\<rparr>"

text \<open>
  \<^verbatim>\<open>stream::iter(scanners).filter(supports).next()\<close>: the scanners are asked one after the
  other, up to the first that supports the system.
\<close>

fun first_supported :: "ip_neighbor_scanner list \<Rightarrow> ip_neighbor_scanner option task" where
  "first_supported [] = Ret None"
| "first_supported (s # ss) =
     task_bind (supports_current_operating_system s) (\<lambda>supported.
     if supported then Ret (Some s) else first_supported ss)"

definition select_scanner :: "ip_neighbor_scanner list \<Rightarrow> ip_neighbor_scanner task" where
  "select_scanner scanners =
     task_bind (first_supported scanners) (\<lambda>found.
     case found of
       Some supported_scanner \<Rightarrow> Ret supported_scanner
     | None \<Rightarrow> Ret dummy_scanner)"

section \<open>Linux: iproute2\<close>

record linux_neighbor =
  ln_ip :: ipv6_addr
  ln_dev :: string
  ln_ifname :: string
  ln_lladdr :: string
  ln_mac :: string
  ln_router :: string
  ln_state :: string

record link =
  ifindex :: u32
  ifname :: string

text \<open>Collecting pairs into a \<^verbatim>\<open>HashMap\<close>: a later pair replaces an earlier one of its key.\<close>

definition links_by_name :: "link list \<Rightarrow> string \<rightharpoonup> link" where
  "links_by_name links = map_of (rev (map (\<lambda>l. (ifname l, l)) links))"

definition linux_parse_output ::
  "(byte list \<Rightarrow> (csv_error, linux_neighbor) result list) \<Rightarrow>
   (byte list \<Rightarrow> (json_error, link list) result) \<Rightarrow>
   byte list \<Rightarrow> byte list \<Rightarrow> (ip_neighbor_scan_error, ip_neighbor list) result" where
  "linux_parse_output csv_rows json_links ip_link_output ip_neighbor_output =
     and_then (map_err Parse_Csv (collect_results (csv_rows ip_neighbor_output))) (\<lambda>neighbors.
     and_then (map_err Parse_Json (json_links ip_link_output)) (\<lambda>links.
     let links = links_by_name links in
     Inr (List.map_filter
            (\<lambda>n. map_option (\<lambda>l. \<lparr>nb_address = ln_ip n, network_interface_index = ifindex l\<rparr>)
                   (links (ln_ifname n)))
            (filter (\<lambda>n. is_valid_ip (ln_ip n))
              (filter (\<lambda>n. ln_state n \<noteq> ''FAILED'') neighbors)))))"

definition linux_scan ::
  "(byte list \<Rightarrow> (csv_error, linux_neighbor) result list) \<Rightarrow>
   (byte list \<Rightarrow> (json_error, link list) result) \<Rightarrow>
   (ip_neighbor_scan_error, ip_neighbor list) result task" where
  "linux_scan csv_rows json_links =
     try_await Child_Process (run ''ip'' [''-json'', ''link'']) (\<lambda>ip_links.
     try_await Child_Process (run ''ip'' [''-family'', ''inet6'', ''neighbor'']) (\<lambda>ip_neighbors.
     Ret (linux_parse_output csv_rows json_links ip_links ip_neighbors)))"

definition linux_scanner ::
  "(byte list \<Rightarrow> (csv_error, linux_neighbor) result list) \<Rightarrow>
   (byte list \<Rightarrow> (json_error, link list) result) \<Rightarrow> ip_neighbor_scanner" where
  "linux_scanner csv_rows json_links =
     \<lparr>supports_current_operating_system = probe ''ip'' [''-Version''],
      scan_neighbors = linux_scan csv_rows json_links\<rparr>"

section \<open>Windows: PowerShell\<close>

record net_neighbor =
  nn_interface_index :: u32
  nn_ip_address :: ipv6_addr
  nn_state :: string

definition ip_neighbor_from :: "net_neighbor \<Rightarrow> ip_neighbor" where
  "ip_neighbor_from value =
     \<lparr>nb_address = nn_ip_address value, network_interface_index = nn_interface_index value\<rparr>"

text \<open>The script \<^verbatim>\<open>Print-IpNeighbors.ps1\<close>, included as bytes.\<close>

definition print_ip_neighbors_ps1 :: "byte list" where
  "print_ip_neighbors_ps1 = map (\<lambda>c. of_nat (of_char c))
     (''Get-NetNeighbor -AddressFamily IPv6 | '' @
      ''Select-Object -Property InterfaceIndex, IPAddress, State | ConvertTo-Csv'')"

definition windows_parse_output ::
  "(byte list \<Rightarrow> (csv_error, net_neighbor) result list) \<Rightarrow>
   byte list \<Rightarrow> (csv_error, ip_neighbor list) result" where
  "windows_parse_output csv_rows output =
     and_then (collect_results (csv_rows output)) (\<lambda>neighbors.
     Inr (map ip_neighbor_from
            (filter (\<lambda>n. is_valid_ip (nn_ip_address n))
              (filter (\<lambda>n. nn_state n \<noteq> ''Unreachable'') neighbors))))"

definition windows_scan ::
  "(byte list \<Rightarrow> (csv_error, net_neighbor) result list) \<Rightarrow>
   (ip_neighbor_scan_error, ip_neighbor list) result task" where
  "windows_scan csv_rows =
     try_await Child_Process (eval ''pwsh'' [''-Command'', ''-''] print_ip_neighbors_ps1) (\<lambda>stdout.
     Ret (map_err Parse_Csv (windows_parse_output csv_rows stdout)))"

definition windows_scanner ::
  "(byte list \<Rightarrow> (csv_error, net_neighbor) result list) \<Rightarrow> ip_neighbor_scanner" where
  "windows_scanner csv_rows =
     \<lparr>supports_current_operating_system = probe ''pwsh'' [''-Command'', ''Get-Command Get-NetNeighbor''],
      scan_neighbors = windows_scan csv_rows\<rparr>"

text \<open>\<^verbatim>\<open>ip_neighbor_scanner\<close>: PowerShell first, then iproute2, then none.\<close>

definition find_ip_neighbor_scanner ::
  "(byte list \<Rightarrow> (csv_error, net_neighbor) result list) \<Rightarrow>
   (byte list \<Rightarrow> (csv_error, linux_neighbor) result list) \<Rightarrow>
   (byte list \<Rightarrow> (json_error, link list) result) \<Rightarrow> ip_neighbor_scanner task" where
  "find_ip_neighbor_scanner windows_rows linux_rows json_links =
     select_scanner [windows_scanner windows_rows, linux_scanner linux_rows json_links]"

section \<open>What a scan finds\<close>

lemma links_by_name_Some_iff:
  "links_by_name links name = Some l \<longleftrightarrow>
     (\<exists>pre post. links = pre @ l # post \<and> ifname l = name \<and> (\<forall>l'\<in>set post. ifname l' \<noteq> name))"
proof (induction links rule: rev_induct)
  case Nil
  show ?case by (simp add: links_by_name_def)
next
  case (snoc x links)
  have step: "links_by_name (links @ [x]) name = (if ifname x = name then Some x else links_by_name links name)"
    by (auto simp: links_by_name_def)
  show ?case
  proof (cases "ifname x = name")
    case True
    have "(\<exists>pre post. links @ [x] = pre @ l # post \<and> ifname l = name \<and> (\<forall>l'\<in>set post. ifname l' \<noteq> name))
        \<longleftrightarrow> x = l"
    proof
      assume "\<exists>pre post. links @ [x] = pre @ l # post \<and> ifname l = name \<and> (\<forall>l'\<in>set post. ifname l' \<noteq> name)"
      then obtain pre post where "links @ [x] = pre @ l # post" "\<forall>l'\<in>set post. ifname l' \<noteq> name"
        by blast
      then show "x = l" using True by (cases post rule: rev_cases) auto
    next
      assume "x = l"
      then show "\<exists>pre post. links @ [x] = pre @ l # post \<and> ifname l = name \<and> (\<forall>l'\<in>set post. ifname l' \<noteq> name)"
        using True by (intro exI [of _ links] exI [of _ "[]"]) simp
    qed
    then show ?thesis using step True by auto
  next
    case False
    have "(\<exists>pre post. links @ [x] = pre @ l # post \<and> ifname l = name \<and> (\<forall>l'\<in>set post. ifname l' \<noteq> name))
        \<longleftrightarrow> (\<exists>pre post. links = pre @ l # post \<and> ifname l = name \<and> (\<forall>l'\<in>set post. ifname l' \<noteq> name))"
      (is "?P \<longleftrightarrow> ?Q")
    proof
      assume ?P
      then obtain pre post where split: "links @ [x] = pre @ l # post" "ifname l = name"
        "\<forall>l'\<in>set post. ifname l' \<noteq> name" by blast
      then show ?Q using False by (cases post rule: rev_cases) auto
    next
      assume ?Q
      then obtain pre post where "links = pre @ l # post" "ifname l = name" "\<forall>l'\<in>set post. ifname l' \<noteq> name"
        by blast
      then show ?P using False by (intro exI [of _ pre] exI [of _ "post @ [x]"]) auto
    qed
    then show ?thesis using step False snoc.IH by simp
  qed
qed

lemma linux_parse_output_Inr_iff:
  "linux_parse_output csv_rows json_links lk nb = Inr ns \<longleftrightarrow>
     (\<exists>rows links. csv_rows nb = map Inr rows \<and> json_links lk = Inr links \<and>
        ns = List.map_filter
          (\<lambda>n. map_option (\<lambda>l. \<lparr>nb_address = ln_ip n, network_interface_index = ifindex l\<rparr>)
                 (links_by_name links (ln_ifname n)))
          (filter (\<lambda>n. is_valid_ip (ln_ip n)) (filter (\<lambda>n. ln_state n \<noteq> ''FAILED'') rows)))"
  by (auto simp: linux_parse_output_def result_simps Let_def collect_results_Inr_iff split: sum.splits)

lemma windows_parse_output_Inr_iff:
  "windows_parse_output csv_rows out = Inr ns \<longleftrightarrow>
     (\<exists>rows. csv_rows out = map Inr rows \<and>
        ns = map ip_neighbor_from (filter (\<lambda>n. is_valid_ip (nn_ip_address n))
               (filter (\<lambda>n. nn_state n \<noteq> ''Unreachable'') rows)))"
  by (auto simp: windows_parse_output_def result_simps collect_results_Inr_iff split: sum.splits)

lemma set_map_filter: "set (List.map_filter f xs) = {y. \<exists>x\<in>set xs. f x = Some y}"
  by (auto simp: List.map_filter_def image_iff) force

lemma valid_ip_not_discovery: "is_valid_ip ip \<Longrightarrow> ip \<noteq> get_discovery_ip"
  using discovery_ip_is_multicast by (auto simp: is_valid_ip_def)

text \<open>
  What the scanner and the server rely on in a scanner of neighbours: it sends no datagram of
  its own, and what it finds are addresses that a datagram can be sent to.
\<close>

locale neighbor_scanner_contract =
  fixes scanner :: ip_neighbor_scanner
  assumes scan_quiet: "exec (scan_neighbors scanner) w = (r, w') \<Longrightarrow> datagrams w' = datagrams w"
    and scan_valid: "exec (scan_neighbors scanner) w = (Inr ns, w') \<Longrightarrow> n \<in> set ns \<Longrightarrow>
      is_valid_ip (nb_address n)"
begin

lemma scan_never_discovery_address:
  "exec (scan_neighbors scanner) w = (Inr ns, w') \<Longrightarrow> n \<in> set ns \<Longrightarrow>
     sa_ip (get_socket_address n port) \<noteq> get_discovery_ip"
  using scan_valid valid_ip_not_discovery by simp

end

lemma quiet_datagrams:
  assumes "trace w' = trace w @ es" and "eval_outcome c inp es r \<or> run_outcome c es r"
  shows "datagrams w' = datagrams w"
  using assms by (auto simp: log_of_def elim!: eval_outcome.cases run_outcome.cases)

lemma run_datagrams: "exec (run c args) w = (r, w') \<Longrightarrow> datagrams w' = datagrams w"
  using exec_run quiet_datagrams by blast

lemma eval_datagrams: "exec (eval c args inp) w = (r, w') \<Longrightarrow> datagrams w' = datagrams w"
  using exec_eval quiet_datagrams by blast

interpretation linux: neighbor_scanner_contract "linux_scanner csv_rows json_links" for csv_rows json_links
proof unfold_locales
  fix w r w' ns n
  show "datagrams w' = datagrams w"
    if "exec (scan_neighbors (linux_scanner csv_rows json_links)) w = (r, w')"
    using that
    by (auto simp: linux_scanner_def linux_scan_def exec_simps dest!: run_datagrams
        split: prod.splits sum.splits)
  show "is_valid_ip (nb_address n)"
    if "exec (scan_neighbors (linux_scanner csv_rows json_links)) w = (Inr ns, w')" "n \<in> set ns"
    using that
    by (auto simp: linux_scanner_def linux_scan_def exec_simps linux_parse_output_Inr_iff set_map_filter
        split: prod.splits sum.splits)
qed

interpretation windows: neighbor_scanner_contract "windows_scanner csv_rows" for csv_rows
proof unfold_locales
  fix w r w' ns n
  show "datagrams w' = datagrams w"
    if "exec (scan_neighbors (windows_scanner csv_rows)) w = (r, w')"
    using that
    by (auto simp: windows_scanner_def windows_scan_def exec_simps dest!: eval_datagrams
        split: prod.splits sum.splits)
  show "is_valid_ip (nb_address n)"
    if scan: "exec (scan_neighbors (windows_scanner csv_rows)) w = (Inr ns, w')" and n: "n \<in> set ns"
  proof -
    obtain out where "windows_parse_output csv_rows out = Inr ns"
      using scan by (auto simp: windows_scanner_def windows_scan_def exec_simps map_err_def
          split: prod.splits sum.splits)
    then show ?thesis using n by (auto simp: windows_parse_output_Inr_iff ip_neighbor_from_def)
  qed
qed

interpretation dummy: neighbor_scanner_contract dummy_scanner
  by unfold_locales (simp_all add: dummy_scanner_def)

lemma probe_datagrams: "exec (probe c args) w = (b, w') \<Longrightarrow> datagrams w' = datagrams w"
  by (auto simp: probe_def call_defs exec_simps split: sum.splits if_splits)

lemma found_scanner:
  assumes "exec (find_ip_neighbor_scanner windows_rows linux_rows json_links) w = (scanner, w')"
  shows "neighbor_scanner_contract scanner \<and> datagrams w' = datagrams w"
proof -
  have "scanner \<in> {windows_scanner windows_rows, linux_scanner linux_rows json_links, dummy_scanner} \<and>
      datagrams w' = datagrams w"
    using assms
    by (auto simp: find_ip_neighbor_scanner_def select_scanner_def windows_scanner_def linux_scanner_def
        exec_simps dest!: probe_datagrams split: prod.splits if_splits)
  then show ?thesis
    using linux.neighbor_scanner_contract_axioms windows.neighbor_scanner_contract_axioms
      dummy.neighbor_scanner_contract_axioms by blast
qed

text \<open>A scanner for concrete runs: it finds one neighbour on a link.\<close>

definition example_neighbors :: "ip_neighbor list" where
  "example_neighbors =
     [\<lparr>nb_address = Ipv6_Addr 0xFE80 0 0 0 0 0 0 1, network_interface_index = 7\<rparr>]"

definition example_scanner :: ip_neighbor_scanner where
  "example_scanner =
     \<lparr>supports_current_operating_system = Ret True, scan_neighbors = Ret (Inr example_neighbors)\<rparr>"

lemma example_scanner_contract: "neighbor_scanner_contract example_scanner"
  by unfold_locales
    (auto simp: example_scanner_def example_neighbors_def is_valid_ip_def is_loopback_def is_unspecified_def
      localhost_def unspecified_def is_multicast_def)

section \<open>Properties\<close>

text \<open>
  The socket address of a neighbour has its address, the port asked for and flow
  label 0; its scope is the network interface when the address is in fe80::/16, and 0 otherwise.
\<close>

theorem socket_address_scope:
  "get_socket_address n port =
     socket_addr_v6 (nb_address n) port 0
       (if hd (segments (nb_address n)) = 0xFE80 then network_interface_index n else 0)"
  by (simp add: get_socket_address_def is_link_local_segment Let_def)

text \<open>
  C22: A neighbour is reported by the iproute2 scanner exactly when some row of the
  output has its address, is not FAILED, holds an address that is neither loopback nor unspecified nor
  multicast, and names a known link; its interface is the index of the last link of that name.
\<close>

theorem linux_neighbors_found:
  assumes "linux_parse_output csv_rows json_links lk nb = Inr ns"
  shows "\<exists>rows links. csv_rows nb = map Inr rows \<and> json_links lk = Inr links \<and>
    set ns = {\<lparr>nb_address = ln_ip row, network_interface_index = ifindex l\<rparr> | row l.
      row \<in> set rows \<and> ln_state row \<noteq> ''FAILED'' \<and>
      \<not> (is_loopback (ln_ip row) \<or> is_unspecified (ln_ip row) \<or> is_multicast (ln_ip row)) \<and>
      (\<exists>pre post. links = pre @ l # post \<and> ifname l = ln_ifname row \<and>
         ln_ifname row \<notin> ifname ` set post)}"
proof -
  from assms obtain rows links where rows: "csv_rows nb = map Inr rows" "json_links lk = Inr links"
    and ns: "ns = List.map_filter
      (\<lambda>n. map_option (\<lambda>l. \<lparr>nb_address = ln_ip n, network_interface_index = ifindex l\<rparr>)
             (links_by_name links (ln_ifname n)))
      (filter (\<lambda>n. is_valid_ip (ln_ip n)) (filter (\<lambda>n. ln_state n \<noteq> ''FAILED'') rows))"
    by (auto simp: linux_parse_output_Inr_iff)
  have "set ns = {\<lparr>nb_address = ln_ip row, network_interface_index = ifindex l\<rparr> | row l.
      row \<in> set rows \<and> ln_state row \<noteq> ''FAILED'' \<and>
      \<not> (is_loopback (ln_ip row) \<or> is_unspecified (ln_ip row) \<or> is_multicast (ln_ip row)) \<and>
      links_by_name links (ln_ifname row) = Some l}"
    unfolding ns set_map_filter by (auto simp: is_valid_ip_def)
  moreover have "links_by_name links name = Some l \<longleftrightarrow>
      (\<exists>pre post. links = pre @ l # post \<and> ifname l = name \<and> name \<notin> ifname ` set post)" for name l
    unfolding links_by_name_Some_iff by (metis image_iff)
  ultimately have "set ns = {\<lparr>nb_address = ln_ip row, network_interface_index = ifindex l\<rparr> | row l.
      row \<in> set rows \<and> ln_state row \<noteq> ''FAILED'' \<and>
      \<not> (is_loopback (ln_ip row) \<or> is_unspecified (ln_ip row) \<or> is_multicast (ln_ip row)) \<and>
      (\<exists>pre post. links = pre @ l # post \<and> ifname l = ln_ifname row \<and>
         ln_ifname row \<notin> ifname ` set post)}"
    by simp
  with rows show ?thesis by blast
qed

abbreviation example_row :: "ipv6_addr \<Rightarrow> string \<Rightarrow> string \<Rightarrow> linux_neighbor" where
  "example_row ip name state \<equiv>
     \<lparr>ln_ip = ip, ln_dev = ''dev'', ln_ifname = name, ln_lladdr = ''lladdr'', ln_mac = [],
       ln_router = ''router'', ln_state = state\<rparr>"

text \<open>The rows and links of the source's own test.\<close>

definition example_rows :: "linux_neighbor list" where
  "example_rows =
     [example_row (Ipv6_Addr 0xFE80 0 0 0 0 0 1 0xABCD) ''wlan0'' ''REACHABLE'',
      example_row (Ipv6_Addr 0xFE80 0 0 0 0 0 2 0xABCD) ''eth0'' ''STALE'',
      example_row (Ipv6_Addr 0xFE80 0 0 0 0 0 3 0xABCD) ''wlan2'' ''STALE'',
      example_row (Ipv6_Addr 0xFF02 0 0 0 0 0 4 0xABCD) ''wlan0'' ''REACHABLE'',
      example_row (Ipv6_Addr 0xFE80 0 0 0 0 0 5 0xABCD) ''wlan0'' ''FAILED'']"

definition example_links :: "link list" where
  "example_links = [\<lparr>ifindex = 1, ifname = ''wlan0''\<rparr>, \<lparr>ifindex = 2, ifname = ''eth0''\<rparr>]"

lemma example_parse:
  "linux_parse_output (\<lambda>_. map Inr example_rows) (\<lambda>_. Inr example_links) [] [] =
     Inr [\<lparr>nb_address = Ipv6_Addr 0xFE80 0 0 0 0 0 1 0xABCD, network_interface_index = 1\<rparr>,
          \<lparr>nb_address = Ipv6_Addr 0xFE80 0 0 0 0 0 2 0xABCD, network_interface_index = 2\<rparr>]"
  unfolding linux_parse_output_Inr_iff
  by (rule exI [of _ example_rows], rule exI [of _ example_links])
    (simp add: example_rows_def example_links_def is_valid_ip_def is_loopback_def is_unspecified_def
      localhost_def unspecified_def is_multicast_def links_by_name_def List.map_filter_simps)

theorem linux_neighbors_found_witness:
  "\<exists>rows links. map Inr example_rows = (map Inr rows :: (csv_error, linux_neighbor) result list) \<and>
    (Inr example_links :: (json_error, link list) result) = Inr links \<and>
    set [\<lparr>nb_address = Ipv6_Addr 0xFE80 0 0 0 0 0 1 0xABCD, network_interface_index = 1\<rparr>,
         \<lparr>nb_address = Ipv6_Addr 0xFE80 0 0 0 0 0 2 0xABCD, network_interface_index = 2\<rparr>]
     = {\<lparr>nb_address = ln_ip row, network_interface_index = ifindex l\<rparr> | row l.
      row \<in> set rows \<and> ln_state row \<noteq> ''FAILED'' \<and>
      \<not> (is_loopback (ln_ip row) \<or> is_unspecified (ln_ip row) \<or> is_multicast (ln_ip row)) \<and>
      (\<exists>pre post. links = pre @ l # post \<and> ifname l = ln_ifname row \<and>
         ln_ifname row \<notin> ifname ` set post)}"
  by (rule linux_neighbors_found [OF example_parse])

text \<open>
  C31: One row that cannot be read, whatever its state, makes the whole scan fail with
  the first such error, before the links are looked at; then the links must be readable as well.
\<close>

theorem linux_parse_fails:
  "linux_parse_output csv_rows json_links lk nb = Inl e \<longleftrightarrow>
     (\<exists>good c rest. csv_rows nb = map Inr good @ Inl c # rest \<and> e = Parse_Csv c) \<or>
     (\<exists>rows j. csv_rows nb = map Inr rows \<and> json_links lk = Inl j \<and> e = Parse_Json j)"
proof (cases "collect_results (csv_rows nb)")
  case (Inl c)
  then have "\<nexists>rows. csv_rows nb = map Inr rows" by (metis collect_results_map_Inr sum.distinct(1))
  moreover have "d = c" if "csv_rows nb = map Inr good @ Inl d # rest" for good d rest
    using Inl that by (metis collect_results_Inl_iff sum.inject(1))
  moreover have "\<exists>good rest. csv_rows nb = map Inr good @ Inl c # rest"
    using Inl by (simp add: collect_results_Inl_iff)
  moreover have "linux_parse_output csv_rows json_links lk nb = Inl (Parse_Csv c)"
    using Inl by (simp add: linux_parse_output_def result_simps)
  ultimately show ?thesis by (metis sum.inject(1))
next
  case (Inr rows)
  then have "\<nexists>good d rest. csv_rows nb = map Inr good @ Inl d # rest"
    by (metis collect_results_Inl_iff sum.distinct(1))
  moreover have "csv_rows nb = map Inr rows" using Inr by (simp add: collect_results_Inr_iff)
  ultimately show ?thesis
    using Inr by (auto simp: linux_parse_output_def result_simps Let_def split: sum.split)
qed

text \<open>
  C32: The PowerShell scanner reports, in order, exactly the rows that are not
  Unreachable and hold an address that is neither loopback nor unspecified nor multicast, or the first
  row that cannot be read.
\<close>

theorem windows_neighbors_found:
  "(windows_parse_output csv_rows out = Inr ns \<longleftrightarrow>
     (\<exists>rows. csv_rows out = map Inr rows \<and>
        ns = [\<lparr>nb_address = nn_ip_address row, network_interface_index = nn_interface_index row\<rparr>.
               row \<leftarrow> rows, nn_state row \<noteq> ''Unreachable'' \<and> \<not> is_loopback (nn_ip_address row) \<and>
                 \<not> is_unspecified (nn_ip_address row) \<and> \<not> is_multicast (nn_ip_address row)])) \<and>
   (windows_parse_output csv_rows out = Inl e \<longleftrightarrow>
     (\<exists>good rest. csv_rows out = map Inr good @ Inl e # rest))"
proof
  have comp: "map ip_neighbor_from (filter (\<lambda>n. is_valid_ip (nn_ip_address n))
      (filter (\<lambda>n. nn_state n \<noteq> ''Unreachable'') rows)) =
    [\<lparr>nb_address = nn_ip_address row, network_interface_index = nn_interface_index row\<rparr>.
       row \<leftarrow> rows, nn_state row \<noteq> ''Unreachable'' \<and> \<not> is_loopback (nn_ip_address row) \<and>
         \<not> is_unspecified (nn_ip_address row) \<and> \<not> is_multicast (nn_ip_address row)]" for rows
    by (induction rows) (simp_all add: is_valid_ip_def ip_neighbor_from_def)
  show "windows_parse_output csv_rows out = Inr ns \<longleftrightarrow>
     (\<exists>rows. csv_rows out = map Inr rows \<and>
        ns = [\<lparr>nb_address = nn_ip_address row, network_interface_index = nn_interface_index row\<rparr>.
               row \<leftarrow> rows, nn_state row \<noteq> ''Unreachable'' \<and> \<not> is_loopback (nn_ip_address row) \<and>
                 \<not> is_unspecified (nn_ip_address row) \<and> \<not> is_multicast (nn_ip_address row)])"
    unfolding windows_parse_output_Inr_iff comp ..
  show "windows_parse_output csv_rows out = Inl e \<longleftrightarrow>
     (\<exists>good rest. csv_rows out = map Inr good @ Inl e # rest)"
    unfolding collect_results_Inl_iff [symmetric]
    by (auto simp: windows_parse_output_def result_simps split: sum.split)
qed

text \<open>
  C30: PowerShell is probed first and chosen when its probe succeeds, without another
  call; otherwise iproute2 is probed; when neither works, the scanner that finds nothing is used.
\<close>

theorem scanner_selected:
  "exec (find_ip_neighbor_scanner windows_rows linux_rows json_links) w =
     (case exec (probe ''pwsh'' [''-Command'', ''Get-Command Get-NetNeighbor'']) w of
        (True, w1) \<Rightarrow> (windows_scanner windows_rows, w1)
      | (False, w1) \<Rightarrow>
          (case exec (probe ''ip'' [''-Version'']) w1 of
             (True, w2) \<Rightarrow> (linux_scanner linux_rows json_links, w2)
           | (False, w2) \<Rightarrow> (dummy_scanner, w2)))"
  by (simp add: find_ip_neighbor_scanner_def select_scanner_def windows_scanner_def linux_scanner_def
      exec_simps split: prod.split bool.split)

text \<open>
  C23: Whichever scanner is chosen, scanning sends no datagram, and every neighbour it
  finds has an address that is neither loopback nor unspecified nor multicast, so never the discovery
  address itself.
\<close>

theorem neighbors_addressable:
  assumes "exec (find_ip_neighbor_scanner windows_rows linux_rows json_links) w0 = (scanner, w)"
    and "exec (scan_neighbors scanner) w = (r, w')"
  shows "datagrams w' = datagrams w \<and>
    (\<forall>ns. r = Inr ns \<longrightarrow> (\<forall>n\<in>set ns. is_valid_ip (nb_address n) \<and>
       sa_ip (get_socket_address n port) \<noteq> get_discovery_ip))"
proof -
  have contract: "neighbor_scanner_contract scanner" using found_scanner [OF assms(1)] ..
  show ?thesis
    using neighbor_scanner_contract.scan_quiet [OF contract assms(2)]
      neighbor_scanner_contract.scan_valid [OF contract]
      neighbor_scanner_contract.scan_never_discovery_address [OF contract] assms(2) by blast
qed

definition example_net_neighbor :: net_neighbor where
  "example_net_neighbor =
     \<lparr>nn_interface_index = 1, nn_ip_address = Ipv6_Addr 0xFE80 0 0 0 0 0 1 0xABCD, nn_state = ''Reachable''\<rparr>"

theorem neighbors_addressable_witness:
  "case exec (find_ip_neighbor_scanner (\<lambda>_. [Inr example_net_neighbor]) (\<lambda>_. []) (\<lambda>_. Inr [])) fresh_world of
     (scanner, w) \<Rightarrow>
       (case exec (scan_neighbors scanner) w of
          (r, w') \<Rightarrow> r = Inr [ip_neighbor_from example_net_neighbor] \<and> datagrams w' = datagrams w \<and>
            sa_ip (get_socket_address (ip_neighbor_from example_net_neighbor) 50000) \<noteq> get_discovery_ip)"
proof -
  let ?rows = "\<lambda>_ :: byte list. [Inr example_net_neighbor :: (csv_error, net_neighbor) result]"
  obtain w where w: "exec (find_ip_neighbor_scanner ?rows (\<lambda>_. []) (\<lambda>_. Inr [])) fresh_world
      = (windows_scanner ?rows, w)" and "os w = obliging_os"
    by (simp add: find_ip_neighbor_scanner_def select_scanner_def windows_scanner_def probe_def call_defs
        exec_simps fresh_world_defs)
  have "is_valid_ip (nn_ip_address example_net_neighbor)"
    by (simp add: example_net_neighbor_def is_valid_ip_def is_loopback_def is_unspecified_def
      localhost_def unspecified_def is_multicast_def)
  then have parsed: "windows_parse_output ?rows out = Inr [ip_neighbor_from example_net_neighbor]" for out
    by (simp add: windows_parse_output_Inr_iff example_net_neighbor_def exI [of _ "[example_net_neighbor]"])
  obtain w' where w': "exec (scan_neighbors (windows_scanner ?rows)) w =
      (Inr [ip_neighbor_from example_net_neighbor], w')"
    using \<open>os w = obliging_os\<close>
    by (simp add: windows_scanner_def windows_scan_def eval_def read_stdout_def call_defs exec_simps
        obliging_os_def parsed map_err_def)
  show ?thesis
    using neighbors_addressable [OF w w', of 50000] w w' by simp
qed

end
