(* ===== verification/Response.thy ===== *)
theory Response
  imports Concurrency Streams
begin

text \<open>
  Responses: the server's side (\<^verbatim>\<open>main/src/response_sender.rs\<close>), which submits one over
  gRPC, and the scanner's side (\<^verbatim>\<open>main/src/response_collector.rs\<close>), which checks each
  submission and hands the service on through a channel.
\<close>

text \<open>What a scanner discovers (\<^verbatim>\<open>scanner::Service\<close>).\<close>

record service =
  address :: sockaddr_v6

section \<open>Sending a response\<close>

text \<open>\<^verbatim>\<open>anyhow::Error\<close>, by where the program makes one.\<close>

datatype anyhow_error =
    Anyhow_Message string
  | Anyhow_Context string
  | Anyhow_Transport transport_error
  | Anyhow_Status status
  | Anyhow_Io io_error

text \<open>The trait \<^verbatim>\<open>ResponseSender\<close>, and its gRPC implementation.\<close>

type_synonym response_sender = "response \<Rightarrow> string \<Rightarrow> (anyhow_error, unit) result task"

definition grpc_send :: response_sender where
  "grpc_send response response_collector_address =
     try_await Anyhow_Transport (grpc_connect response_collector_address) (\<lambda>client.
     try_await Anyhow_Status (grpc_submit_response client response) (\<lambda>_.
     Ret (Inr ())))"

text \<open>The responses delivered, with the addresses they were sent to.\<close>

fun delivered_response :: "event \<Rightarrow> (string \<times> response) list" where
  "delivered_response (Ev_Submit (a, c) r (Inr ())) = [(a, r)]"
| "delivered_response _ = []"

abbreviation responses :: "world \<Rightarrow> (string \<times> response) list" where
  "responses \<equiv> log_of delivered_response"

locale response_sender_contract =
  fixes send :: response_sender
  assumes send_once: "emits_once delivered_response (a, r) False (send r a)"

interpretation grpc: response_sender_contract grpc_send
proof unfold_locales
  fix a r
  have submit: "emits_once delivered_response (a, r) False
      (try_await Anyhow_Status (grpc_submit_response (a, c) r) (\<lambda>_. Ret (Inr ())))" for c
    unfolding grpc_submit_response_def
    by (rule emits_once_emit_await) (auto intro: emits_once.completed)
  show "emits_once delivered_response (a, r) False (grpc_send r a)"
    unfolding grpc_send_def grpc_connect_def try_await_syscall
  proof (rule emits_once.act, rule exI [of _ False])
    fix w
    show "emits_once delivered_response (a, r) False
        (fst (case map_ok (Pair a) (os_connect (os w) (trace w) a) of
              Inl e \<Rightarrow> Ret (Inl (Anyhow_Transport e))
            | Inr client \<Rightarrow> try_await Anyhow_Status (grpc_submit_response client r) (\<lambda>_. Ret (Inr ())),
          w\<lparr>trace := trace w @ [Ev_Connect a (map_ok (Pair a) (os_connect (os w) (trace w) a))]\<rparr>)) \<and>
      (False \<longrightarrow> False) \<and>
      responses (snd (case map_ok (Pair a) (os_connect (os w) (trace w) a) of
              Inl e \<Rightarrow> Ret (Inl (Anyhow_Transport e) :: (anyhow_error, unit) result)
            | Inr client \<Rightarrow> try_await Anyhow_Status (grpc_submit_response client r) (\<lambda>_. Ret (Inr ())),
          w\<lparr>trace := trace w @ [Ev_Connect a (map_ok (Pair a) (os_connect (os w) (trace w) a))]\<rparr>))
        = responses w @ (if False \<and> \<not> False then [(a, r)] else [])"
      using submit
      by (cases "os_connect (os w) (trace w) a") (auto simp: map_ok_def intro: emits_once.failed)
  qed
qed

section \<open>The channel of discovered services\<close>

text \<open>
  \<^verbatim>\<open>futures_channel::mpsc::unbounded\<close>: sending succeeds while the receiving half is alive,
  and what was sent is received in that order.
\<close>

locale unbounded_channel =
  fixes unbounded_send :: "'c \<Rightarrow> 'a \<Rightarrow> bool \<times> 'c"
    and contents :: "'c \<Rightarrow> 'a list"
    and alive :: "'c \<Rightarrow> bool"
  assumes send_ok: "fst (unbounded_send c x) \<longleftrightarrow> alive c"
    and send_contents: "contents (snd (unbounded_send c x)) = contents c @ (if alive c then [x] else [])"
    and send_alive: "alive (snd (unbounded_send c x)) \<longleftrightarrow> alive c"

record 'a channel =
  ch_queue :: "'a list"
  ch_receiver_alive :: bool

definition channel_send :: "'a channel \<Rightarrow> 'a \<Rightarrow> bool \<times> 'a channel" where
  "channel_send c x =
     (if ch_receiver_alive c then (True, c\<lparr>ch_queue := ch_queue c @ [x]\<rparr>) else (False, c))"

interpretation channel: unbounded_channel channel_send ch_queue ch_receiver_alive
  by unfold_locales (auto simp: channel_send_def)

section \<open>Accepting a response\<close>

definition invalid_argument :: "string \<Rightarrow> status" where
  "invalid_argument m = \<lparr>status_code = Invalid_Argument, status_message = m\<rparr>"

definition unimplemented :: "string \<Rightarrow> status" where
  "unimplemented m = \<lparr>status_code = Unimplemented, status_message = m\<rparr>"

definition unavailable :: "string \<Rightarrow> status" where
  "unavailable m = \<lparr>status_code = Unavailable, status_message = m\<rparr>"

text \<open>\<^verbatim>\<open>ResponseCollectorServiceProvider::submit_response\<close>, on the sending half \<open>c\<close>.\<close>

definition submit_response ::
  "('c \<Rightarrow> service \<Rightarrow> bool \<times> 'c) \<Rightarrow> socket_addr option \<Rightarrow> response \<Rightarrow> 'c \<Rightarrow>
   (status, unit) result \<times> 'c" where
  "submit_response unbounded_send remote_address request c =
     (case try_into_u16 (res_service_port request) of
        None \<Rightarrow> (Inl (invalid_argument ''Port out of range''), c)
      | Some service_port \<Rightarrow>
          if service_port = 0 then (Inl (invalid_argument ''Port must not be 0''), c)
          else (case remote_address of
                  Some (V6 a) \<Rightarrow>
                    (let service_address = set_port service_port a;
                         service = \<lparr>address = service_address\<rparr>
                     in case unbounded_send c service of
                          (True, c') \<Rightarrow> (Inr (), c')
                        | (False, c') \<Rightarrow> (Inl (unavailable ''No longer accepting responses''), c'))
                | Some (V4 _) \<Rightarrow> (Inl (unimplemented ''IPv4 unsupported''), c)
                | None \<Rightarrow> (Inl (unimplemented ''Remote address unavailable''), c)))"

text \<open>The submissions the gRPC server receives, in the order it handles them.\<close>

fun submit_all ::
  "('c \<Rightarrow> service \<Rightarrow> bool \<times> 'c) \<Rightarrow> (socket_addr option \<times> response) list \<Rightarrow> 'c \<Rightarrow>
   (status, unit) result list \<times> 'c" where
  "submit_all unbounded_send [] c = ([], c)"
| "submit_all unbounded_send ((remote, request) # rs) c =
     (case submit_response unbounded_send remote request c of
        (r, c') \<Rightarrow> (case submit_all unbounded_send rs c' of (results, c'') \<Rightarrow> (r # results, c'')))"

text \<open>The specification: the service a submission stands for, if it is well-formed.\<close>

definition service_of :: "socket_addr option \<Rightarrow> response \<Rightarrow> service option" where
  "service_of remote request =
     (case (remote, try_into_u16 (res_service_port request)) of
        (Some (V6 a), Some p) \<Rightarrow> if p = 0 then None else Some \<lparr>address = set_port p a\<rparr>
      | _ \<Rightarrow> None)"

lemma submit_response_well_formed:
  "service_of remote request = Some s \<Longrightarrow>
     submit_response send remote request c =
       (case send c s of (True, c') \<Rightarrow> (Inr (), c')
          | (False, c') \<Rightarrow> (Inl (unavailable ''No longer accepting responses''), c'))"
  by (auto simp: service_of_def submit_response_def Let_def
      split: option.splits socket_addr.splits if_splits)

lemma submit_response_ill_formed:
  "service_of remote request = None \<Longrightarrow>
     \<exists>status. submit_response send remote request c = (Inl status, c)"
  by (auto simp: service_of_def submit_response_def Let_def
      split: option.splits socket_addr.splits if_splits)

text \<open>The channel as the collector uses it.\<close>

locale service_channel = unbounded_channel unbounded_send contents alive
  for unbounded_send :: "'c \<Rightarrow> service \<Rightarrow> bool \<times> 'c"
    and contents :: "'c \<Rightarrow> service list" and alive :: "'c \<Rightarrow> bool"
begin

lemma submit_response_Ok_iff:
  "fst (submit_response unbounded_send remote request c) = Inr () \<longleftrightarrow>
     service_of remote request \<noteq> None \<and> alive c"
proof (cases "service_of remote request")
  case None
  then show ?thesis using submit_response_ill_formed [OF None, of unbounded_send c] by auto
next
  case (Some s)
  then show ?thesis
    using send_ok [of c s]
    by (cases "unbounded_send c s") (auto simp: submit_response_well_formed split: bool.split)
qed

lemma submit_response_contents:
  "contents (snd (submit_response unbounded_send remote request c)) =
     contents c @ (case service_of remote request of None \<Rightarrow> [] | Some s \<Rightarrow> if alive c then [s] else [])"
proof (cases "service_of remote request")
  case None
  then show ?thesis using submit_response_ill_formed [OF None, of unbounded_send c] by auto
next
  case (Some s)
  then show ?thesis
    using send_contents [of c s]
    by (cases "unbounded_send c s") (auto simp: submit_response_well_formed split: bool.split)
qed

lemma submit_response_alive:
  "alive (snd (submit_response unbounded_send remote request c)) \<longleftrightarrow> alive c"
proof (cases "service_of remote request")
  case None
  then show ?thesis using submit_response_ill_formed [OF None, of unbounded_send c] by auto
next
  case (Some s)
  then show ?thesis
    using send_alive [of c s]
    by (cases "unbounded_send c s") (auto simp: submit_response_well_formed split: bool.split)
qed

lemma submit_all_contents:
  "contents (snd (submit_all unbounded_send rs c)) =
     contents c @ (if alive c then List.map_filter (\<lambda>(remote, request). service_of remote request) rs else [])"
proof (induction rs arbitrary: c)
  case (Cons sub rs)
  obtain remote request where sub: "sub = (remote, request)" by (cases sub)
  obtain r c' where r: "submit_response unbounded_send remote request c = (r, c')"
    by (cases "submit_response unbounded_send remote request c")
  then have "contents c' = contents c @
      (case service_of remote request of None \<Rightarrow> [] | Some s \<Rightarrow> if alive c then [s] else [])"
    and "alive c' \<longleftrightarrow> alive c"
    using submit_response_contents [of remote request c] submit_response_alive [of remote request c]
    by simp_all
  then show ?case
    using sub r Cons [of c'] by (auto split: prod.splits option.splits)
qed simp

lemma submit_all_results:
  "fst (submit_all unbounded_send rs c) ! i = Inr () \<longleftrightarrow>
     service_of (fst (rs ! i)) (snd (rs ! i)) \<noteq> None \<and> alive c"
  if "i < length rs"
  using that
proof (induction rs arbitrary: c i)
  case (Cons sub rs)
  obtain remote request where sub: "sub = (remote, request)" by (cases sub)
  obtain r c' where r: "submit_response unbounded_send remote request c = (r, c')"
    by (cases "submit_response unbounded_send remote request c")
  then have ok: "r = Inr () \<longleftrightarrow> service_of remote request \<noteq> None \<and> alive c" and "alive c' \<longleftrightarrow> alive c"
    using submit_response_Ok_iff [of remote request c] submit_response_alive [of remote request c]
    by simp_all
  then show ?case
    using sub r Cons.IH [of "i - 1" c'] Cons.prems
    by (cases i) (auto split: prod.splits)
qed simp

end

interpretation services: service_channel channel_send ch_queue ch_receiver_alive
  by unfold_locales

section \<open>The collector\<close>

text \<open>
  \<^verbatim>\<open>GrpcResponseCollector::new\<close>: a TCP listener on a port of the system's choice, which
  the scanner advertises, a fresh channel, and a router with two services: the health service of
  \<^verbatim>\<open>tonic_health\<close>, with the names of the services reported to be serving, and the
  collector's own, which holds the sending half of the channel.
\<close>

datatype grpc_service =
    Health_Service "string list"
  | Response_Collector_Service

definition response_collector_service_name :: string where
  "response_collector_service_name = ''tw.seamlik.tansa.v1.ResponseCollectorService''"

definition set_serving :: "string \<Rightarrow> string list \<Rightarrow> string list" where
  "set_serving name serving = (if name \<in> set serving then serving else serving @ [name])"

definition add_service :: "grpc_service \<Rightarrow> grpc_service list \<Rightarrow> grpc_service list" where
  "add_service service router = router @ [service]"

record grpc_response_collector =
  grc_tcp :: nat
  grc_port :: u16
  grc_grpc :: "grpc_service list"
  grc_channel :: "service channel"

definition new_response_collector :: "(io_error, grpc_response_collector) result task" where
  "new_response_collector =
     try_await id (tcp_bind wildcard_addr) (\<lambda>tcp.
     try_await id (tcp_local_addr tcp) (\<lambda>addr.
     let port = sa_port addr;
         response_channel = \<lparr>ch_queue = [], ch_receiver_alive = True\<rparr>;
         health_server = Health_Service (set_serving response_collector_service_name []);
         grpc = add_service Response_Collector_Service (add_service health_server [])
     in Ret (Inr \<lparr>grc_tcp = tcp, grc_port = port, grc_grpc = grpc, grc_channel = response_channel\<rparr>)))"

text \<open>
  \<^verbatim>\<open>ResponseCollector::collect\<close>: the server's future joined with the services received
  from the channel so far.
\<close>

definition grpc_collect ::
  "((transport_error, service option) result observed \<Rightarrow> (transport_error, service option) result observed \<Rightarrow>
      (transport_error, service option) result observed) \<Rightarrow>
   (transport_error, unit) result option \<Rightarrow> service observed \<Rightarrow>
   (transport_error, service) result observed" where
  "grpc_collect select server response_receiver =
     join select id id server (stream_map (Inr :: service \<Rightarrow> (transport_error, service) result) response_receiver)"

text \<open>The trait \<^verbatim>\<open>ResponseCollector\<close>.\<close>

record response_collector =
  get_port :: u16
  collect :: "(transport_error, service) result observed"

text \<open>
  What \<^verbatim>\<open>response_receiver\<close> has received, from the submissions the gRPC server has handled so far;
  it ends when the last sender is dropped.
\<close>

definition received_services ::
  "(socket_addr option \<times> response) list \<Rightarrow> bool \<Rightarrow> grpc_response_collector \<Rightarrow> service observed" where
  "received_services submissions dropped c =
     Observed (ch_queue (snd (submit_all channel_send submissions (grc_channel c)))) dropped"

definition grpc_response_collector_of ::
  "((transport_error, service option) result observed \<Rightarrow> (transport_error, service option) result observed \<Rightarrow>
      (transport_error, service option) result observed) \<Rightarrow>
   (transport_error, unit) result option \<Rightarrow> (socket_addr option \<times> response) list \<Rightarrow> bool \<Rightarrow>
   grpc_response_collector \<Rightarrow> response_collector" where
  "grpc_response_collector_of select server submissions dropped c =
     \<lparr>get_port = grc_port c, collect = grpc_collect select server (received_services submissions dropped c)\<rparr>"

lemma service_of_Some_iff:
  "service_of remote request = Some s \<longleftrightarrow>
     (\<exists>a p. remote = Some (V6 a) \<and> res_service_port request = into_u32 p \<and> p \<noteq> 0 \<and>
        s = \<lparr>address = set_port p a\<rparr>)"
  by (auto simp: service_of_def try_into_u16_Some_iff split: option.splits socket_addr.splits if_splits)

lemma exec_grpc_send:
  "exec (grpc_send r a) w = (v, w') \<Longrightarrow> responses w' = responses w @ (if isl v then [] else [(a, r)])"
  using emits_once_exec [OF grpc.send_once] by simp

lemma new_collector_channel:
  "exec new_response_collector w = (Inr collector, w') \<Longrightarrow>
     grc_channel collector = \<lparr>ch_queue = [], ch_receiver_alive = True\<rparr>"
  by (auto simp: new_response_collector_def call_defs exec_simps Let_def split: sum.splits)

lemma received_services_items:
  "grc_channel c = \<lparr>ch_queue = [], ch_receiver_alive = True\<rparr> \<Longrightarrow>
     items (received_services submissions dropped c) =
       List.map_filter (\<lambda>(remote, request). service_of remote request) submissions"
  using services.submit_all_contents [of submissions "grc_channel c"] by (simp add: received_services_def)

lemma grpc_collect_items:
  assumes "stream_select select"
  shows "mset (List.map_filter ok (items (grpc_collect select server received))) = mset (items received)"
proof -
  have "items (grpc_collect select server received)
      \<in> shuffles (converted id (stream_map Inr received)) (future_error id server)"
    unfolding grpc_collect_def by (rule join_shuffles [OF assms])
  from mset_shuffles [OF map_filter_shuffles [OF this, of ok]]
  have "mset (List.map_filter ok (items (grpc_collect select server received))) =
      mset (List.map_filter ok
        (map (map_err id) (map Inr (items received) :: (transport_error, service) result list))) +
      mset (List.map_filter ok (future_error id server :: (transport_error, service) result list))"
    by (simp only: stream_sel)
  moreover have "List.map_filter ok (map (map_err id) (map Inr xs :: (transport_error, service) result list)) = xs"
    for xs by (induction xs) (auto simp: List.map_filter_simps result_simps)
  moreover have "List.map_filter ok (future_error id server :: (transport_error, service) result list) = []"
    by (auto simp: future_error_def ok_def List.map_filter_simps split: option.split sum.split)
  ultimately show ?thesis by (simp only: mset.simps add_0_right)
qed

section \<open>Properties\<close>

text \<open>
  Sending a response connects to the collector's address and submits the response there
  once; it succeeds exactly when that submission was accepted, and otherwise reports which of the two
  steps failed.
\<close>

theorem grpc_send_once:
  "case exec (grpc_send r a) w of (v, w') \<Rightarrow>
     responses w' = responses w @ (if isl v then [] else [(a, r)]) \<and>
     ((\<exists>e. v = Inl (Anyhow_Transport e) \<and> trace w' = trace w @ [Ev_Connect a (Inl e)]) \<or>
      (\<exists>c s. trace w' = trace w @ [Ev_Connect a (Inr (a, c)), Ev_Submit (a, c) r s] \<and>
         v = map_err Anyhow_Status s))"
  using exec_grpc_send [of r a w]
  by (cases "exec (grpc_send r a) w")
    (auto simp: grpc_send_def call_defs exec_simps result_simps split: sum.splits)

text \<open>
  C17: A submission is accepted exactly when the collector still listens, the submitter
  is known by an IPv6 address, and the port fits 16 bits and is not 0; then exactly one service is put at
  the end of the channel, the submitter's address with that port. Otherwise the channel is unchanged.
\<close>

theorem submission_accepted:
  "case submit_response channel_send remote request c of (r, c') \<Rightarrow>
     if ch_receiver_alive c \<and>
        (\<exists>a p. remote = Some (V6 a) \<and> res_service_port request = into_u32 p \<and> p \<noteq> 0)
     then r = Inr () \<and>
        (\<exists>a p. remote = Some (V6 a) \<and> res_service_port request = into_u32 p \<and>
           c' = c\<lparr>ch_queue := ch_queue c @ [\<lparr>address = set_port p a\<rparr>]\<rparr>)
     else isl r \<and> c' = c"
proof (cases "service_of remote request")
  case None
  then have "\<nexists>a p. remote = Some (V6 a) \<and> res_service_port request = into_u32 p \<and> p \<noteq> 0"
    by (metis option.distinct(1) service_of_Some_iff)
  then show ?thesis using submit_response_ill_formed [OF None, of channel_send c] by auto
next
  case (Some s)
  then show ?thesis
    using submit_response_well_formed [OF Some, of channel_send c]
    by (auto simp: service_of_Some_iff channel_send_def)
qed

text \<open>
  C18: The status of a refused submission: a port that does not fit 16 bits or is 0 is an
  invalid argument, whoever sends it; then a submitter without an IPv6 address is not implemented; then a
  collector that no longer listens is unavailable.
\<close>

theorem submission_refused:
  "fst (submit_response channel_send remote request c) = Inl st \<longleftrightarrow>
     (if 65536 \<le> unat (res_service_port request) then st = invalid_argument ''Port out of range''
      else if res_service_port request = 0 then st = invalid_argument ''Port must not be 0''
      else if remote = None then st = unimplemented ''Remote address unavailable''
      else if \<exists>a. remote = Some (V4 a) then st = unimplemented ''IPv4 unsupported''
      else \<not> ch_receiver_alive c \<and> st = unavailable ''No longer accepting responses'')"
proof (cases "try_into_u16 (res_service_port request)")
  case None
  moreover from this have "65536 \<le> unat (res_service_port request)" by (simp add: try_into_u16_None_iff)
  ultimately show ?thesis by (auto simp: submit_response_def)
next
  case (Some p)
  then have port: "res_service_port request = into_u32 p" by (simp add: try_into_u16_Some_iff)
  have zero: "into_u32 p = 0 \<longleftrightarrow> p = 0" using into_u32_inject [of p 0] by simp
  have small: "\<not> 65536 \<le> unat (into_u32 p)" by (simp add: not_le)
  show ?thesis
    using Some small
    by (cases remote) (auto simp: submit_response_def port zero channel_send_def Let_def
        split: socket_addr.splits)
qed

text \<open>
  Of a sequence of submissions, those that stand for a service are accepted, each
  refusal leaving the others alone, and the services are received once each in the order of submission.
\<close>

theorem submissions_in_order:
  "ch_queue (snd (submit_all channel_send rs \<lparr>ch_queue = [], ch_receiver_alive = True\<rparr>)) =
     [s. (remote, request) \<leftarrow> rs, s \<leftarrow> (case service_of remote request of None \<Rightarrow> [] | Some s \<Rightarrow> [s])] \<and>
   map (\<lambda>r. r = Inr ()) (fst (submit_all channel_send rs \<lparr>ch_queue = [], ch_receiver_alive = True\<rparr>)) =
     map (\<lambda>(remote, request). service_of remote request \<noteq> None) rs"
proof
  let ?c = "\<lparr>ch_queue = [], ch_receiver_alive = True\<rparr> :: service channel"
  have "List.map_filter (\<lambda>(remote, request). service_of remote request) rs =
      [s. (remote, request) \<leftarrow> rs, s \<leftarrow> (case service_of remote request of None \<Rightarrow> [] | Some s \<Rightarrow> [s])]"
    by (induction rs) (auto split: option.split)
  then show "ch_queue (snd (submit_all channel_send rs ?c)) =
      [s. (remote, request) \<leftarrow> rs, s \<leftarrow> (case service_of remote request of None \<Rightarrow> [] | Some s \<Rightarrow> [s])]"
    using services.submit_all_contents [of rs ?c] by simp
  have len: "length (fst (submit_all channel_send rs c)) = length rs" for c
    by (induction rs arbitrary: c) (auto split: prod.splits, metis fst_conv)
  show "map (\<lambda>r. r = Inr ()) (fst (submit_all channel_send rs ?c)) =
      map (\<lambda>(remote, request). service_of remote request \<noteq> None) rs"
    using services.submit_all_results [of _ rs ?c] len
    by (intro nth_equalityI) (auto simp: split_beta)
qed

text \<open>
  A new collector listens on all interfaces, advertises exactly the port the
  system gave to its listener, serves the health service, which reports the collector as serving, and the
  collector itself, and starts with an empty channel that accepts services.
\<close>

theorem collector_advertises_its_port:
  assumes "exec new_response_collector w = (Inr collector, w')"
  shows "\<exists>a. trace w' = trace w @ [Ev_Tcp_Bind wildcard_addr (Inr (grc_tcp collector)),
      Ev_Tcp_Local_Addr (grc_tcp collector) (Inr a)] \<and>
    get_port (grpc_response_collector_of select server submissions dropped collector) = sa_port a \<and>
    grc_grpc collector = [Health_Service [response_collector_service_name], Response_Collector_Service] \<and>
    grc_channel collector = \<lparr>ch_queue = [], ch_receiver_alive = True\<rparr>"
  using assms
  by (auto simp: new_response_collector_def grpc_response_collector_of_def add_service_def set_serving_def
      call_defs exec_simps Let_def split: sum.splits)

theorem collector_advertises_its_port_witness:
  "get_port (grpc_response_collector_of (scheduled_select []) None [] False
     (case fst (exec new_response_collector fresh_world) of Inr c \<Rightarrow> c | Inl _ \<Rightarrow> undefined)) = 4000"
proof -
  obtain c w where c: "exec new_response_collector fresh_world = (Inr c, w)"
    "trace w = [Ev_Tcp_Bind wildcard_addr (Inr 2), Ev_Tcp_Local_Addr 2 (Inr (set_port 4000 wildcard_addr))]"
    by (simp add: new_response_collector_def call_defs exec_simps fresh_world_defs Let_def)
  show ?thesis
    using collector_advertises_its_port [OF c(1), of "scheduled_select []" None "[]" False] c
    by (auto simp: fresh_world_def)
qed

text \<open>
  What is collected is every service received, in order, together with the error of
  the gRPC server if it fails; the end of the services alone does not end the collection, nor does the end
  of the server alone.
\<close>

theorem collected_services:
  assumes "stream_select select"
  shows "items (grpc_collect select server received)
      \<in> shuffles (map Inr (items received)) (case server of Some (Inl e) \<Rightarrow> [Inl e] | _ \<Rightarrow> []) \<and>
    (ended (grpc_collect select server received) \<longleftrightarrow> ended received \<and> server \<noteq> None)"
  using join_shuffles [OF assms, of id id server "stream_map Inr received"]
    join_ended [OF assms, of id id server "stream_map Inr received"]
  by (simp add: grpc_collect_def future_error_def map_err_def o_def id_def)

theorem collected_services_witness:
  "items (grpc_collect (scheduled_select []) (Some (Inl (Transport_Error 1)))
     (Observed [\<lparr>address = wildcard_addr\<rparr>] True))
   \<in> shuffles [Inr \<lparr>address = wildcard_addr\<rparr>] [Inl (Transport_Error 1)]"
  using collected_services [OF scheduled.stream_select_axioms [of "[]"],
      of "Some (Inl (Transport_Error 1))" "Observed [\<lparr>address = wildcard_addr\<rparr>] True"]
  by simp

end
