(* ===== verification/Collection.thy ===== *)
theory Collection
  imports Response
begin

text \<open>
  The channel of a response collector (\<^verbatim>\<open>main/src/response_collector.rs\<close>) beside its consumer: submissions
  are handled by \<open>submit_response\<close>, in any order with respect to the consumer, who takes services from the
  receiving end, the \<^verbatim>\<open>response_receiver\<close> that \<^verbatim>\<open>collect\<close> maps into its stream, and may drop it at any
  moment. Runs, and the first-in-first-out contract they implement. That \<^verbatim>\<open>collect\<close> joins this end
  with the future of the gRPC server, whose error it yields as an item, is \<open>grpc_collect\<close> of \<open>Response\<close>.
\<close>

section \<open>Steps\<close>

datatype collector_event =
    Submitted "socket_addr option" response "(status, unit) result"
  | Collected service
  | Dropped

inductive collector_step :: "service channel \<Rightarrow> collector_event \<Rightarrow> service channel \<Rightarrow> bool" where
  submit: "submit_response channel_send remote request c = (r, c') \<Longrightarrow>
    collector_step c (Submitted remote request r) c'"
| collect_next: "ch_receiver_alive c \<Longrightarrow> ch_queue c = s # rest \<Longrightarrow>
    collector_step c (Collected s) (c\<lparr>ch_queue := rest\<rparr>)"
| drop_stream: "ch_receiver_alive c \<Longrightarrow>
    collector_step c Dropped \<lparr>ch_queue = [], ch_receiver_alive = False\<rparr>"

inductive_simps collector_step_simps [simp]:
  "collector_step c (Submitted remote request r) c'"
  "collector_step c (Collected s) c'"
  "collector_step c Dropped c'"

definition fresh_channel :: "service channel" where
  "fresh_channel = \<lparr>ch_queue = [], ch_receiver_alive = True\<rparr>"

inductive collector_run :: "collector_event list \<Rightarrow> service channel \<Rightarrow> bool" where
  start: "collector_run [] fresh_channel"
| step: "collector_run evs c \<Longrightarrow> collector_step c ev c' \<Longrightarrow> collector_run (evs @ [ev]) c'"

section \<open>The contract\<close>

text \<open>The abstract collector is the list of what it owes its consumer, or closed.\<close>

datatype collector_spec = Open "service list" | Closed

definition abs_channel :: "service channel \<Rightarrow> collector_spec" where
  "abs_channel c = (if ch_receiver_alive c then Open (ch_queue c) else Closed)"

fun spec_step :: "collector_spec \<Rightarrow> collector_event \<Rightarrow> collector_spec option" where
  "spec_step (Open owed) (Submitted remote request (Inr u)) =
     map_option (\<lambda>s. Open (owed @ [s])) (service_of remote request)"
| "spec_step (Open owed) (Submitted remote request (Inl st)) =
     (if service_of remote request = None then Some (Open owed) else None)"
| "spec_step (Open (s # owed)) (Collected s') = (if s' = s then Some (Open owed) else None)"
| "spec_step (Open []) (Collected s') = None"
| "spec_step (Open owed) Dropped = Some Closed"
| "spec_step Closed (Submitted remote request (Inl st)) =
     (if service_of remote request \<noteq> None \<and> status_code st \<noteq> Unavailable then None else Some Closed)"
| "spec_step Closed _ = None"

fun spec_run :: "collector_spec \<Rightarrow> collector_event list \<Rightarrow> collector_spec option" where
  "spec_run a [] = Some a"
| "spec_run a (ev # evs) = Option.bind (spec_step a ev) (\<lambda>a'. spec_run a' evs)"

lemma spec_run_append: "spec_run a (evs @ evs') = Option.bind (spec_run a evs) (\<lambda>a'. spec_run a' evs')"
  by (induction a evs rule: spec_run.induct) (auto split: Option.bind_splits)

lemma submit_cases:
  assumes "submit_response channel_send remote request c = (r, c')"
  obtains (accepted) s where "service_of remote request = Some s" "ch_receiver_alive c" "r = Inr ()"
      "c' = c\<lparr>ch_queue := ch_queue c @ [s]\<rparr>"
  | (closed) s st where "service_of remote request = Some s" "\<not> ch_receiver_alive c" "r = Inl st"
      "status_code st = Unavailable" "c' = c"
  | (ill_formed) st where "service_of remote request = None" "r = Inl st" "c' = c"
proof (cases "service_of remote request")
  case None
  then show ?thesis
    using submit_response_ill_formed [OF None, of channel_send c] assms ill_formed by auto
next
  case (Some s)
  then show ?thesis
    using assms accepted closed
    by (auto simp: submit_response_well_formed channel_send_def unavailable_def split: if_splits)
qed

text \<open>One step of the collector is one step of the contract.\<close>

lemma collector_step_refines:
  "collector_step c ev c' \<Longrightarrow> spec_step (abs_channel c) ev = Some (abs_channel c')"
proof (induction rule: collector_step.cases)
  case (submit remote request c r c')
  from submit(4) show ?case
    unfolding submit(1-3) by (cases rule: submit_cases) (auto simp: abs_channel_def)
qed (auto simp: abs_channel_def)

lemma collector_run_refines:
  "collector_run evs c \<Longrightarrow> spec_run (Open []) evs = Some (abs_channel c)"
proof (induction rule: collector_run.induct)
  case start
  show ?case by (simp add: abs_channel_def fresh_channel_def)
next
  case (step evs c ev c')
  then show ?case by (simp add: spec_run_append collector_step_refines)
qed

section \<open>What is collected\<close>

text \<open>The services accepted and those collected, in the order of a run.\<close>

fun accepted_by :: "collector_event \<Rightarrow> service option" where
  "accepted_by (Submitted remote request (Inr u)) = service_of remote request"
| "accepted_by _ = None"

fun collected_by :: "collector_event \<Rightarrow> service option" where
  "collected_by (Collected s) = Some s"
| "collected_by _ = None"

lemma spec_run_order:
  "spec_run (Open owed) evs = Some a \<Longrightarrow>
     \<exists>rest. owed @ List.map_filter accepted_by evs = List.map_filter collected_by evs @ rest \<and>
       (a = Closed \<or> a = Open rest)"
proof (induction evs arbitrary: owed)
  case (Cons ev evs)
  have closed: "a = Closed \<and> List.map_filter accepted_by evs = [] \<and> List.map_filter collected_by evs = []"
    if "spec_run Closed evs = Some a" for evs
    using that
  proof (induction evs)
    case (Cons ev evs)
    then obtain remote request st where "ev = Submitted remote request (Inl st)"
      by (cases ev; cases "case ev of Submitted _ _ r \<Rightarrow> r | _ \<Rightarrow> Inr ()") (auto split: Option.bind_splits)
    with Cons show ?case by (auto split: Option.bind_splits if_splits)
  qed simp
  show ?case
  proof (cases ev)
    case (Submitted remote request r)
    with Cons show ?thesis by (cases r) (fastforce split: Option.bind_splits if_splits)+
  next
    case (Collected s)
    with Cons show ?thesis by (cases owed) (fastforce split: Option.bind_splits if_splits)+
  next
    case Dropped
    with Cons.prems closed show ?thesis by auto
  qed
qed simp

text \<open>Every service that is queued or collected stands for an earlier accepted submission.\<close>

lemma collected_submitted:
  assumes "collector_run evs c" and "Collected s \<in> set evs"
  shows "\<exists>remote request. Submitted remote request (Inr ()) \<in> set evs \<and> service_of remote request = Some s"
proof -
  obtain rest where "List.map_filter accepted_by evs = List.map_filter collected_by evs @ rest"
    using spec_run_order [OF collector_run_refines [OF assms(1)]] by auto
  moreover have "s \<in> set (List.map_filter collected_by evs)"
    using assms(2) by (force simp: List.map_filter_def)
  ultimately have "s \<in> set (List.map_filter accepted_by evs)" by simp
  then obtain ev where ev: "ev \<in> set evs" "accepted_by ev = Some s" by (auto simp: List.map_filter_def)
  then obtain remote request where "ev = Submitted remote request (Inr ())" "service_of remote request = Some s"
    by (cases ev rule: accepted_by.cases) auto
  with ev(1) show ?thesis by blast
qed

text \<open>A concrete run: a service is accepted and collected, the stream dropped, the next one refused.\<close>

definition example_run :: "collector_event list" where
  "example_run =
     [Submitted (Some (V6 wildcard_addr)) \<lparr>res_service_port = into_u32 80\<rparr> (Inr ()),
      Collected \<lparr>address = set_port 80 wildcard_addr\<rparr>, Dropped,
      Submitted (Some (V6 wildcard_addr)) \<lparr>res_service_port = into_u32 81\<rparr>
        (Inl (unavailable ''No longer accepting responses''))]"

lemma example_run: "collector_run example_run \<lparr>ch_queue = [], ch_receiver_alive = False\<rparr>"
proof -
  have "collector_run ([] @ [example_run ! 0]) \<lparr>ch_queue = [\<lparr>address = set_port 80 wildcard_addr\<rparr>],
      ch_receiver_alive = True\<rparr>"
    by (rule collector_run.step [OF collector_run.start])
      (simp add: example_run_def submit_response_def channel_send_def fresh_channel_def)
  from collector_run.step [OF this, of "example_run ! 1" fresh_channel]
  have "collector_run ([example_run ! 0] @ [example_run ! 1]) fresh_channel"
    by (simp add: example_run_def fresh_channel_def)
  from collector_run.step [OF this, of "example_run ! 2" "\<lparr>ch_queue = [], ch_receiver_alive = False\<rparr>"]
  have "collector_run ([example_run ! 0, example_run ! 1] @ [example_run ! 2])
      \<lparr>ch_queue = [], ch_receiver_alive = False\<rparr>"
    by (simp add: example_run_def fresh_channel_def)
  from collector_run.step [OF this, of "example_run ! 3" "\<lparr>ch_queue = [], ch_receiver_alive = False\<rparr>"]
  show ?thesis
    by (simp add: example_run_def submit_response_def channel_send_def)
qed

section \<open>Properties\<close>

text \<open>
  C7: Every run of the collector, with submissions and consumption interleaved in any
  way, is a run of an abstract queue: a submission succeeds exactly when it is well-formed and the stream has
  not been dropped, services come out in the order they went in, and after the drop well-formed submissions
  are refused as unavailable. So what is collected is a prefix of what was accepted, without loss,
  duplication or reordering, and the rest is still queued unless the stream was dropped.
\<close>

theorem collector_refines_queue:
  assumes "collector_run evs c"
  shows "spec_run (Open []) evs = Some (abs_channel c) \<and>
    (\<exists>rest. List.map_filter accepted_by evs = List.map_filter collected_by evs @ rest \<and>
       (abs_channel c = Closed \<or> ch_queue c = rest))"
proof -
  note run = collector_run_refines [OF assms]
  with spec_run_order [OF run] show ?thesis by (auto simp: abs_channel_def split: if_splits)
qed

theorem collector_refines_queue_witness:
  "spec_run (Open []) example_run = Some Closed \<and>
   List.map_filter accepted_by example_run = [\<lparr>address = set_port 80 wildcard_addr\<rparr>]"
proof -
  from collector_refines_queue [OF example_run]
  have "spec_run (Open []) example_run = Some Closed" by (simp add: abs_channel_def)
  then show ?thesis
    by (simp add: example_run_def List.map_filter_simps service_of_def)
qed

text \<open>
  C33: Every service collected is one that was submitted and accepted: its address is the one
  the submission came from, with the port the submission carried, which lies between 1 and 65535.
\<close>

theorem collected_ports:
  assumes "collector_run evs c" and "Collected s \<in> set evs"
  shows "0 < unat (sa_port (address s)) \<and>
    (\<exists>a request. Submitted (Some (V6 a)) request (Inr ()) \<in> set evs \<and>
       unat (res_service_port request) = unat (sa_port (address s)) \<and>
       address s = a\<lparr>sa_port := sa_port (address s)\<rparr>)"
proof -
  obtain remote request where sub: "Submitted remote request (Inr ()) \<in> set evs"
    "service_of remote request = Some s"
    using collected_submitted [OF assms] by blast
  then obtain a p where "remote = Some (V6 a)" "res_service_port request = into_u32 p" "p \<noteq> 0"
    "s = \<lparr>address = set_port p a\<rparr>"
    by (auto simp: service_of_Some_iff)
  with sub(1) show ?thesis by (auto simp: set_port_def unat_gt_0 intro!: exI [of _ a])
qed

theorem collected_ports_witness:
  "0 < unat (sa_port (set_port 80 wildcard_addr)) \<and>
   (\<exists>a request. Submitted (Some (V6 a)) request (Inr ()) \<in> set example_run \<and>
      unat (res_service_port request) = 80 \<and> set_port 80 wildcard_addr = a\<lparr>sa_port := 80\<rparr>)"
  using collected_ports [OF example_run, of "\<lparr>address = set_port 80 wildcard_addr\<rparr>"]
  by (simp add: example_run_def)

end
