(* ===== verification/Scanner.thy ===== *)
theory Scanner
  imports Response Packet Ip_Neighbor
begin

text \<open>
  \<^verbatim>\<open>main/src/scanner.rs\<close>: scanning for services. A scan sends a request to the multicast
  address and to every neighbour, and yields the services that answer to its response
  collector or announce themselves on the discovery port.
\<close>

section \<open>Announcements\<close>

datatype scan_error =
    Scan_Invalid_Discovery_Port
  | Send_Request io_error
  | Collect_Response transport_error
  | Scan_Ip_Neighbor ip_neighbor_scan_error

fun show_scan_error :: "scan_error \<Rightarrow> string" where
  "show_scan_error Scan_Invalid_Discovery_Port = ''Invalid discovery port''"
| "show_scan_error (Send_Request e) = ''Multicast network error''"
| "show_scan_error (Collect_Response e) = ''gRPC error''"
| "show_scan_error (Scan_Ip_Neighbor e) = ''IP neighbor scan error''"

definition extract_service :: "discovery_packet \<Rightarrow> sockaddr_v6 \<Rightarrow> (anyhow_error, service) result" where
  "extract_service packet addr =
     and_then (ok_or (Anyhow_Message ''Not an `Announcement`'') (unwrap_response packet)) (\<lambda>response.
     and_then (ok_or (Anyhow_Context ''Port out of range'') (try_into_u16 (res_service_port response))) (\<lambda>port.
     Inr \<lparr>address = set_port port addr\<rparr>))"

definition receive_announcements ::
  "packet_receiver \<Rightarrow> ipv6_addr \<Rightarrow> u16 \<Rightarrow> (scan_error, service) result observed" where
  "receive_announcements udp_receiver discovery_ip discovery_port =
     stream_filter_map transpose
       (stream_map (map_ok (\<lambda>(packet, addr). ok (extract_service packet addr)))
         (stream_map (map_err Send_Request) (udp_receiver discovery_ip discovery_port)))"

section \<open>Requests\<close>

fun send_to_neighbors ::
  "udp_sender \<Rightarrow> u16 \<Rightarrow> byte list \<Rightarrow> ip_neighbor list \<Rightarrow> (scan_error, unit) result task" where
  "send_to_neighbors udp_sender discovery_port packet_bytes [] = Ret (Inr ())"
| "send_to_neighbors udp_sender discovery_port packet_bytes (ip_neighbor # neighbors) =
     (let link_local_address = get_socket_address ip_neighbor discovery_port in
      try_await Send_Request (send_unicast udp_sender link_local_address packet_bytes) (\<lambda>_.
      send_to_neighbors udp_sender discovery_port packet_bytes neighbors))"

definition send_requests ::
  "(discovery_packet \<Rightarrow> byte list) \<Rightarrow> udp_sender \<Rightarrow> ip_neighbor_scanner \<Rightarrow> request \<Rightarrow> u16 \<Rightarrow>
   (scan_error, unit) result task" where
  "send_requests encode udp_sender ip_neighbor_scanner request discovery_port =
     (let packet = packet_from_request request;
          packet_bytes = encode packet;
          multicast_ip = get_discovery_ip;
          multicast_address = socket_addr_v6 multicast_ip discovery_port 0 0
      in try_await Send_Request (send_multicast udp_sender multicast_address packet_bytes) (\<lambda>_.
         try_await Scan_Ip_Neighbor (scan_neighbors ip_neighbor_scanner) (\<lambda>neighbors.
         send_to_neighbors udp_sender discovery_port packet_bytes neighbors)))"

section \<open>Scanning\<close>

definition scan_internal ::
  "((scan_error, service option) result observed \<Rightarrow> (scan_error, service option) result observed \<Rightarrow>
      (scan_error, service option) result observed) \<Rightarrow>
   ((scan_error, service) result observed \<Rightarrow> (scan_error, service) result observed \<Rightarrow>
      (scan_error, service) result observed) \<Rightarrow>
   ((scan_error, unit) result task \<Rightarrow> (scan_error, unit) result option) \<Rightarrow>
   (discovery_packet \<Rightarrow> byte list) \<Rightarrow>
   u16 \<Rightarrow> response_collector \<Rightarrow> udp_sender \<Rightarrow> packet_receiver \<Rightarrow> ip_neighbor_scanner \<Rightarrow>
   (scan_error, service) result observed" where
  "scan_internal select_join select_services observe encode
     discovery_port response_collector udp_sender udp_receiver ip_neighbor_scanner =
     (if discovery_port = 0 then stream_once (Inl Scan_Invalid_Discovery_Port)
      else
        let discovery_ip = get_discovery_ip;
            request = \<lparr>req_response_collector_port = into_u32 (get_port response_collector)\<rparr>;
            services = select_services
              (stream_map (map_err Collect_Response) (collect response_collector))
              (receive_announcements udp_receiver discovery_ip discovery_port)
        in join select_join id id
             (observe (send_requests encode udp_sender ip_neighbor_scanner request discovery_port))
             services)"

text \<open>
  \<^verbatim>\<open>future::try_join\<close> of the collector and the scanner of neighbours, where only the first
  can fail.
\<close>

definition try_join_setup ::
  "(io_error, 'c) result option \<Rightarrow> 's option \<Rightarrow> (scan_error, 'c \<times> 's) result option" where
  "try_join_setup collector scanner =
     (case (collector, scanner) of
        (Some (Inl e), _) \<Rightarrow> Some (Inl (Send_Request e))
      | (Some (Inr c), Some s) \<Rightarrow> Some (Inr (c, s))
      | _ \<Rightarrow> None)"

text \<open>
  What the public \<^verbatim>\<open>scan\<close> runs on: the merges that \<^verbatim>\<open>select\<close> makes, how far each future
  has come, the codec, the framing, and what has arrived so far:
  the datagrams on each socket and the submissions to the collector.
\<close>

record scan_runtime =
  sr_select_join :: "(scan_error, service option) result observed \<Rightarrow>
    (scan_error, service option) result observed \<Rightarrow> (scan_error, service option) result observed"
  sr_select_services :: "(scan_error, service) result observed \<Rightarrow>
    (scan_error, service) result observed \<Rightarrow> (scan_error, service) result observed"
  sr_select_collect :: "(transport_error, service option) result observed \<Rightarrow>
    (transport_error, service option) result observed \<Rightarrow> (transport_error, service option) result observed"
  sr_observe_requests :: "(scan_error, unit) result task \<Rightarrow> (scan_error, unit) result option"
  sr_observe_socket :: "(io_error, nat) result task \<Rightarrow> (io_error, nat) result option"
  sr_observe_collector :: "(io_error, grpc_response_collector) result task \<Rightarrow>
    (io_error, grpc_response_collector) result option"
  sr_observe_scanner :: "ip_neighbor_scanner task \<Rightarrow> ip_neighbor_scanner option"
  sr_encode :: "discovery_packet \<Rightarrow> byte list"
  sr_decode :: "discovery_packet message_decoder"
  sr_framed :: "(io_error \<Rightarrow> decode_error) \<Rightarrow> (decode_error, discovery_packet) frame_decoder \<Rightarrow>
    incoming observed \<Rightarrow> (decode_error, discovery_packet \<times> socket_addr) result observed"
  sr_arrivals :: "nat \<Rightarrow> incoming observed"
  sr_grpc_server :: "(transport_error, unit) result option"
  sr_submissions :: "(socket_addr option \<times> response) list"
  sr_submissions_over :: bool
  sr_windows_rows :: "byte list \<Rightarrow> (csv_error, net_neighbor) result list"
  sr_linux_rows :: "byte list \<Rightarrow> (csv_error, linux_neighbor) result list"
  sr_json_links :: "byte list \<Rightarrow> (json_error, link list) result"

definition scan :: "scan_runtime \<Rightarrow> u16 \<Rightarrow> (scan_error, service) result observed" where
  "scan rt discovery_port =
     (let response_collector = sr_observe_collector rt new_response_collector;
          ip_neighbor_scanner = sr_observe_scanner rt
            (find_ip_neighbor_scanner (sr_windows_rows rt) (sr_linux_rows rt) (sr_json_links rt))
      in case try_join_setup response_collector ip_neighbor_scanner of
           None \<Rightarrow> Observed [] False
         | Some (Inl e) \<Rightarrow> stream_once (Inl e)
         | Some (Inr (c, s)) \<Rightarrow>
             scan_internal (sr_select_join rt) (sr_select_services rt) (sr_observe_requests rt) (sr_encode rt)
               discovery_port
               (grpc_response_collector_of (sr_select_collect rt) (sr_grpc_server rt) (sr_submissions rt)
                 (sr_submissions_over rt) c)
               tokio_udp_sender
               (tokio_packet_receiver (sr_framed rt) (sr_decode rt) (sr_observe_socket rt) (sr_arrivals rt))
               s)"

section \<open>What is discovered\<close>

text \<open>The specification: the service a packet announces, if it does.\<close>

definition announced :: "discovery_packet \<Rightarrow> sockaddr_v6 \<Rightarrow> service option" where
  "announced packet addr =
     (case unwrap_response packet of
        None \<Rightarrow> None
      | Some r \<Rightarrow> map_option (\<lambda>p. \<lparr>address = set_port p addr\<rparr>) (try_into_u16 (res_service_port r)))"

lemma ok_extract_service: "ok (extract_service packet addr) = announced packet addr"
  by (auto simp: extract_service_def announced_def result_simps split: option.split sum.split)

definition announcement_item ::
  "(io_error, discovery_packet \<times> sockaddr_v6) result \<Rightarrow> (scan_error, service) result option" where
  "announcement_item i =
     (case i of
        Inl e \<Rightarrow> Some (Inl (Send_Request e))
      | Inr (packet, addr) \<Rightarrow> map_option Inr (announced packet addr))"

lemma receive_announcements_items:
  "items (receive_announcements receiver ip port) =
     List.map_filter announcement_item (items (receiver ip port))"
proof -
  have "transpose (map_ok (\<lambda>(packet, addr). ok (extract_service packet addr)) (map_err Send_Request i))
      = announcement_item i" for i
    by (cases i) (auto simp: announcement_item_def ok_extract_service transpose_def map_ok_def
        map_err_def split: option.split)
  then have "List.map_filter transpose (map (map_ok (\<lambda>(packet, addr). ok (extract_service packet addr)))
      (map (map_err Send_Request) xs)) = List.map_filter announcement_item xs" for xs
    by (induction xs) (simp_all split: option.split)
  then show ?thesis by (simp add: receive_announcements_def)
qed

section \<open>What is sent\<close>

context udp_sender_contract
begin

lemma exec_send_to_neighbors:
  "exec (send_to_neighbors sender port bytes ns) w = (r, w') \<Longrightarrow>
     \<exists>k \<le> length ns. (\<not> isl r \<longleftrightarrow> k = length ns) \<and>
       datagrams w' = datagrams w @ map (\<lambda>n. (get_socket_address n port, bytes)) (take k ns)"
proof (induction ns arbitrary: w)
  case Nil
  then show ?case by auto
next
  case (Cons n ns)
  let ?a = "get_socket_address n port"
  obtain r1 w1 where u: "exec (send_unicast sender ?a bytes) w = (r1, w1)"
    by (cases "exec (send_unicast sender ?a bytes) w")
  note sent = exec_unicast [OF u]
  show ?case
  proof (cases r1)
    case (Inl e)
    then show ?thesis using Cons.prems u sent by (auto simp: exec_simps Let_def intro!: exI [of _ 0])
  next
    case (Inr v)
    then have "exec (send_to_neighbors sender port bytes ns) w1 = (r, w')"
      using Cons.prems u by (simp add: exec_simps Let_def)
    then obtain k where "k \<le> length ns" "\<not> isl r \<longleftrightarrow> k = length ns"
      "datagrams w' = datagrams w1 @ map (\<lambda>n. (get_socket_address n port, bytes)) (take k ns)"
      using Cons.IH by blast
    then show ?thesis using sent Inr by (intro exI [of _ "Suc k"]) auto
  qed
qed

end

text \<open>What sending the requests leaves on the network, by what the calls before it answered.\<close>

lemma exec_send_requests_by_calls:
  assumes "udp_sender_contract sender" and "neighbor_scanner_contract nbs"
    and "exec (send_requests encode sender nbs req port) w = (r, w')"
    and "mc = (socket_addr_v6 get_discovery_ip port 0 0, encode (packet_from_request req))"
  shows "case exec (send_multicast sender (fst mc) (snd mc)) w of
      (Inl e, _) \<Rightarrow> r = Inl (Send_Request e) \<and> datagrams w' = datagrams w
    | (Inr _, w1) \<Rightarrow>
        (case exec (scan_neighbors nbs) w1 of
           (Inl e, _) \<Rightarrow> r = Inl (Scan_Ip_Neighbor e) \<and> datagrams w' = datagrams w @ [mc]
         | (Inr ns, _) \<Rightarrow> \<exists>k \<le> length ns. (isl r \<longleftrightarrow> k < length ns) \<and>
             datagrams w' = datagrams w @ mc # map (\<lambda>n. (get_socket_address n port, snd mc)) (take k ns))"
proof -
  let ?addr = "socket_addr_v6 get_discovery_ip port 0 0" and ?bytes = "encode (packet_from_request req)"
  obtain r1 w1 where m: "exec (send_multicast sender ?addr ?bytes) w = (r1, w1)"
    by (cases "exec (send_multicast sender ?addr ?bytes) w")
  obtain r2 w2 where s: "exec (scan_neighbors nbs) w1 = (r2, w2)" by (cases "exec (scan_neighbors nbs) w1")
  note sent = udp_sender_contract.exec_multicast [OF assms(1) m]
  note quiet = neighbor_scanner_contract.scan_quiet [OF assms(2) s]
  show ?thesis
  proof (cases r1)
    case (Inl e)
    then show ?thesis using assms(3,4) m sent by (auto simp: send_requests_def Let_def exec_simps)
  next
    case r1: (Inr u)
    show ?thesis
    proof (cases r2)
      case (Inl e)
      then show ?thesis
        using assms(3,4) m s sent quiet r1 by (auto simp: send_requests_def Let_def exec_simps)
    next
      case (Inr ns)
      then have "exec (send_to_neighbors sender port ?bytes ns) w2 = (r, w')"
        using assms(3) m s r1 by (simp add: send_requests_def Let_def exec_simps)
      from udp_sender_contract.exec_send_to_neighbors [OF assms(1) this]
      obtain k where "k \<le> length ns" "\<not> isl r \<longleftrightarrow> k = length ns"
        "datagrams w' = datagrams w2 @ map (\<lambda>n. (get_socket_address n port, ?bytes)) (take k ns)"
        by blast
      then have "datagrams w' = datagrams w @ mc # map (\<lambda>n. (get_socket_address n port, snd mc)) (take k ns)"
        "isl r \<longleftrightarrow> k < length ns"
        using sent quiet r1 assms(4) by auto
      then show ?thesis using m s r1 Inr \<open>k \<le> length ns\<close> assms(4) by auto
    qed
  qed
qed

lemma exec_send_requests:
  assumes "udp_sender_contract sender" and "neighbor_scanner_contract nbs"
    and "exec (send_requests encode sender nbs req port) w = (r, w')"
    and "mc = (socket_addr_v6 get_discovery_ip port 0 0, encode (packet_from_request req))"
  shows "(\<exists>e. r = Inl (Send_Request e) \<and> datagrams w' = datagrams w) \<or>
    (\<exists>e. r = Inl (Scan_Ip_Neighbor e) \<and> datagrams w' = datagrams w @ [mc]) \<or>
    (\<exists>w1 ns w2 k. exec (scan_neighbors nbs) w1 = (Inr ns, w2) \<and> k \<le> length ns \<and>
       (isl r \<longleftrightarrow> k < length ns) \<and>
       datagrams w' = datagrams w @ mc # map (\<lambda>n. (get_socket_address n port, snd mc)) (take k ns))"
  using exec_send_requests_by_calls [OF assms]
  by (cases "exec (send_multicast sender (fst mc) (snd mc)) w") (auto split: prod.splits sum.splits)

lemma scan_internal_yields:
  assumes "stream_select select_join" and "stream_select select_services" and "port \<noteq> 0"
    and "scanned = scan_internal select_join select_services observe encode port rc sender receiver nbs"
    and "sending = observe (send_requests encode sender nbs
      \<lparr>req_response_collector_port = into_u32 (get_port rc)\<rparr> port)"
  shows "(\<exists>found \<in> shuffles (map (map_err Collect_Response) (items (collect rc)))
        (List.map_filter announcement_item (items (receiver get_discovery_ip port))).
      items scanned \<in> shuffles found (case sending of Some (Inl e) \<Rightarrow> [Inl e] | _ \<Rightarrow> [])) \<and>
    (ended scanned \<longleftrightarrow> sending \<noteq> None \<and> ended (collect rc) \<and> ended (receiver get_discovery_ip port))"
proof
  let ?services = "select_services (stream_map (map_err Collect_Response) (collect rc))
    (receive_announcements receiver get_discovery_ip port)"
  have scanned: "scanned = join select_join id id sending ?services"
    using assms(3-5) by (simp add: scan_internal_def Let_def)
  have "items ?services \<in> shuffles (map (map_err Collect_Response) (items (collect rc)))
      (List.map_filter announcement_item (items (receiver get_discovery_ip port)))"
    using stream_select.select_items [OF assms(2), of "stream_map (map_err Collect_Response) (collect rc)"
        "receive_announcements receiver get_discovery_ip port"]
    by (simp add: receive_announcements_items)
  moreover have "map_err id = (\<lambda>r :: (scan_error, service) result. r)"
    by (auto simp: map_err_def split: sum.split)
  then have "items scanned \<in> shuffles (items ?services) (case sending of Some (Inl e) \<Rightarrow> [Inl e] | _ \<Rightarrow> [])"
    using join_shuffles [OF assms(1), of id id sending ?services]
    by (simp add: scanned future_error_def id_def)
  ultimately show "\<exists>found \<in> shuffles (map (map_err Collect_Response) (items (collect rc)))
        (List.map_filter announcement_item (items (receiver get_discovery_ip port))).
      items scanned \<in> shuffles found (case sending of Some (Inl e) \<Rightarrow> [Inl e] | _ \<Rightarrow> [])"
    by blast
  show "ended scanned \<longleftrightarrow> sending \<noteq> None \<and> ended (collect rc) \<and> ended (receiver get_discovery_ip port)"
    using join_ended [OF assms(1), of id id sending ?services]
      stream_select.select_ended [OF assms(2), of "stream_map (map_err Collect_Response) (collect rc)"
        "receive_announcements receiver get_discovery_ip port"]
    by (auto simp: scanned receive_announcements_def)
qed

section \<open>Properties\<close>

text \<open>
  C15: Requests go to the multicast address first, then to every neighbour in the order the
  scanner of neighbours gives, each with the same bytes, once. The operation succeeds exactly when all
  of them went out; on an error, those before the failure went out and no other did.
\<close>

theorem requests_sent:
  assumes "udp_sender_contract sender" and "neighbor_scanner_contract nbs"
    and "exec (send_requests encode sender nbs req port) w = (r, w')"
    and "mc = (socket_addr_v6 get_discovery_ip port 0 0, encode (packet_from_request req))"
  shows "(\<exists>e. r = Inl (Send_Request e) \<and> datagrams w' = datagrams w) \<or>
    (\<exists>e. r = Inl (Scan_Ip_Neighbor e) \<and> datagrams w' = datagrams w @ [mc]) \<or>
    (\<exists>w1 ns w2 k. exec (scan_neighbors nbs) w1 = (Inr ns, w2) \<and> k \<le> length ns \<and>
       (isl r \<longleftrightarrow> k < length ns) \<and>
       datagrams w' = datagrams w @ mc # map (\<lambda>n. (get_socket_address n port, snd mc)) (take k ns))"
  using assms by (rule exec_send_requests)

theorem requests_sent_witness:
  "datagrams (snd (exec (send_requests encode_packet tokio_udp_sender example_scanner
     \<lparr>req_response_collector_port = 0\<rparr> 50000) fresh_world)) =
   [(socket_addr_v6 get_discovery_ip 50000 0 0, encode_packet (packet_from_request \<lparr>req_response_collector_port = 0\<rparr>)),
    (socket_addr_v6 (Ipv6_Addr 0xFE80 0 0 0 0 0 0 1) 50000 0 7,
      encode_packet (packet_from_request \<lparr>req_response_collector_port = 0\<rparr>))]"
proof -
  let ?req = "\<lparr>req_response_collector_port = 0\<rparr>"
  obtain w' where w': "exec (send_requests encode_packet tokio_udp_sender example_scanner ?req 50000) fresh_world
      = (Inr (), w')"
    by (simp add: send_requests_def tokio_udp_sender_def tokio_send_multicast_def tokio_send_unicast_def
        new_sender_socket_def example_scanner_def example_neighbors_def call_defs exec_simps Let_def
        fresh_world_defs)
  have start: "datagrams fresh_world = []" by (simp add: log_of_def fresh_world_def)
  have "scan_neighbors example_scanner = Ret (Inr example_neighbors)" by (simp add: example_scanner_def)
  with requests_sent [OF tokio.udp_sender_contract_axioms example_scanner_contract w' refl] start w'
  show ?thesis
    by (auto simp: example_neighbors_def get_socket_address_def is_link_local_segment)
qed

text \<open>
  Of the packets received, those that announce a port that fits 16 bits yield the
  sender's address with that port, in order; an error of the receiver is yielded as an error of the scan,
  and every other packet is dropped.
\<close>

theorem announcements_received:
  "items (receive_announcements receiver ip port) =
     [item. i \<leftarrow> items (receiver ip port),
       item \<leftarrow> (case i of
          Inl e \<Rightarrow> [Inl (Send_Request e)]
        | Inr (packet, a) \<Rightarrow>
            (case unwrap_response packet of
               None \<Rightarrow> []
             | Some res \<Rightarrow> if unat (res_service_port res) < 65536
                 then [Inr \<lparr>address = set_port (ucast (res_service_port res)) a\<rparr>] else []))] \<and>
   ended (receive_announcements receiver ip port) = ended (receiver ip port)"
proof
  have "List.map_filter announcement_item is =
     [item. i \<leftarrow> is,
       item \<leftarrow> (case i of
          Inl e \<Rightarrow> [Inl (Send_Request e)]
        | Inr (packet, a) \<Rightarrow>
            (case unwrap_response packet of
               None \<Rightarrow> []
             | Some res \<Rightarrow> if unat (res_service_port res) < 65536
                 then [Inr \<lparr>address = set_port (ucast (res_service_port res)) a\<rparr>] else []))]" for "is"
    by (induction "is")
      (auto simp: announcement_item_def announced_def try_into_u16_def split: sum.split option.split)
  then show "items (receive_announcements receiver ip port) =
     [item. i \<leftarrow> items (receiver ip port),
       item \<leftarrow> (case i of
          Inl e \<Rightarrow> [Inl (Send_Request e)]
        | Inr (packet, a) \<Rightarrow>
            (case unwrap_response packet of
               None \<Rightarrow> []
             | Some res \<Rightarrow> if unat (res_service_port res) < 65536
                 then [Inr \<lparr>address = set_port (ucast (res_service_port res)) a\<rparr>] else []))]"
    by (simp add: receive_announcements_items)
qed (simp add: receive_announcements_def)

text \<open>
  C16: A scan yields what the collector collects and what is announced, each in its own order with
  the errors converted, together with the error of sending the requests if that fails; the requests carry the
  port the collector listens on. It goes on until the requests, the collection and the announcements have
  all ended.
\<close>

theorem scan_yields:
  assumes "stream_select select_join" and "stream_select select_services" and "port \<noteq> 0"
    and "scanned = scan_internal select_join select_services observe encode port rc sender receiver nbs"
    and "sending = observe (send_requests encode sender nbs
      \<lparr>req_response_collector_port = into_u32 (get_port rc)\<rparr> port)"
  shows "(\<exists>found \<in> shuffles (map (map_err Collect_Response) (items (collect rc)))
        (List.map_filter announcement_item (items (receiver get_discovery_ip port))).
      items scanned \<in> shuffles found (case sending of Some (Inl e) \<Rightarrow> [Inl e] | _ \<Rightarrow> [])) \<and>
    (ended scanned \<longleftrightarrow> sending \<noteq> None \<and> ended (collect rc) \<and> ended (receiver get_discovery_ip port))"
  using assms by (rule scan_internal_yields)

definition example_found :: service where
  "example_found = \<lparr>address = set_port 80 wildcard_addr\<rparr>"

definition example_scan :: "(scan_error, service) result observed" where
  "example_scan =
     scan_internal (scheduled_select []) (scheduled_select []) (\<lambda>t. Some (fst (exec t fresh_world)))
       encode_packet 50000
       \<lparr>get_port = 4000, collect = Observed [Inr example_found] False\<rparr> tokio_udp_sender
       (\<lambda>_ _. Observed [Inr (packet_from_response \<lparr>res_service_port = 99\<rparr>, wildcard_addr)] True) dummy_scanner"

theorem scan_yields_witness:
  "(\<exists>found \<in> shuffles [Inr example_found] [Inr \<lparr>address = set_port 99 wildcard_addr\<rparr>].
      items example_scan \<in> shuffles found []) \<and> \<not> ended example_scan"
proof -
  have "fst (exec (send_requests encode_packet tokio_udp_sender dummy_scanner
      \<lparr>req_response_collector_port = into_u32 4000\<rparr> 50000) fresh_world) = Inr ()"
    by (simp add: send_requests_def tokio_udp_sender_def tokio_send_multicast_def
        new_sender_socket_def dummy_scanner_def call_defs exec_simps Let_def fresh_world_defs)
  moreover have "announced (packet_from_response \<lparr>res_service_port = 99\<rparr>) wildcard_addr
      = Some \<lparr>address = set_port 99 wildcard_addr\<rparr>"
    by (simp add: announced_def try_into_u16_def)
  ultimately show ?thesis
    using scan_yields [OF scheduled.stream_select_axioms [of "[]"] scheduled.stream_select_axioms [of "[]"]
        _ example_scan_def refl]
    by (simp add: announcement_item_def List.map_filter_simps map_err_def)
qed

text \<open>
  A scan of discovery port 0 finds nothing: it yields at most one item, an error, which is
  the invalid port unless the collector could not be set up.
\<close>

theorem scan_port_zero:
  "scan rt 0 = Observed [] False \<or> scan rt 0 = Observed [Inl Scan_Invalid_Discovery_Port] True \<or>
   (\<exists>e. sr_observe_collector rt new_response_collector = Some (Inl e) \<and>
      scan rt 0 = Observed [Inl (Send_Request e)] True)"
  by (auto simp: scan_def Let_def try_join_setup_def scan_internal_def stream_once_def
      split: option.split sum.split)

text \<open>
  C34: The two ways of being discovered agree on all ports but one. A response from an IPv6 address
  is taken for the same service, that address with the port it carries, whether it is announced or submitted
  to a collector that listens, if the port lies in 1..65535; it is refused both ways if the port is larger;
  and port 0, which a submission may not carry, is accepted in an announcement.
\<close>

theorem ports_agree:
  "(extract_service (packet_from_response r) a = Inr s \<longleftrightarrow>
      (\<exists>p. res_service_port r = into_u32 p \<and> s = \<lparr>address = a\<lparr>sa_port := p\<rparr>\<rparr>)) \<and>
   (submit_response channel_send (Some (V6 a)) r c = (Inr (), c\<lparr>ch_queue := ch_queue c @ [s]\<rparr>) \<longleftrightarrow>
      ch_receiver_alive c \<and> res_service_port r \<noteq> 0 \<and> extract_service (packet_from_response r) a = Inr s)"
proof -
  have port: "(res_service_port r = into_u32 p) = (try_into_u16 (res_service_port r) = Some p)" for p
    by (rule try_into_u16_Some_iff [symmetric])
  have announce: "extract_service (packet_from_response r) a = Inr s \<longleftrightarrow>
      (\<exists>p. res_service_port r = into_u32 p \<and> s = \<lparr>address = a\<lparr>sa_port := p\<rparr>\<rparr>)" for s
    unfolding port by (cases "try_into_u16 (res_service_port r)") (auto simp: extract_service_def result_simps set_port_def)
  show ?thesis
  proof (cases "service_of (Some (V6 a)) r")
    case None
    then have "\<nexists>p. res_service_port r = into_u32 p \<and> p \<noteq> 0" by (metis option.distinct(1) service_of_Some_iff)
    then have "\<nexists>s. extract_service (packet_from_response r) a = Inr s \<and> res_service_port r \<noteq> 0"
      using announce by auto
    moreover obtain st where "submit_response channel_send (Some (V6 a)) r c = (Inl st, c)"
      using submit_response_ill_formed [OF None, of channel_send c] by blast
    ultimately show ?thesis using announce by auto
  next
    case (Some s')
    then obtain p where p: "res_service_port r = into_u32 p" "p \<noteq> 0" "s' = \<lparr>address = set_port p a\<rparr>"
      by (auto simp: service_of_Some_iff)
    have "submit_response channel_send (Some (V6 a)) r c =
        (if ch_receiver_alive c then (Inr (), c\<lparr>ch_queue := ch_queue c @ [s']\<rparr>)
         else (Inl (unavailable ''No longer accepting responses''), c))"
      by (simp add: submit_response_well_formed [OF Some] channel_send_def)
    moreover have "extract_service (packet_from_response r) a = Inr s \<longleftrightarrow> s = s'"
      using p(3) unfolding announce p(1) into_u32_inject by (auto simp: set_port_def)
    moreover have "res_service_port r \<noteq> 0" using p(1,2) into_u32_inject [of p 0] by simp
    moreover have "c\<lparr>ch_queue := ch_queue c @ [s']\<rparr> = c\<lparr>ch_queue := ch_queue c @ [s]\<rparr> \<longleftrightarrow> s = s'"
      by (cases c) auto
    ultimately show ?thesis using announce [of s] by simp
  qed
qed

text \<open>
  C8: The public scan, once its collector, its scanner of neighbours and its socket are ready:
  counted with their multiplicity, the services it has yielded are always among those that
  well-formed submissions to its collector stand for and those that packets received on the discovery port
  announce; and they are exactly these after some rounds of the framing, unless a datagram arrived on which
  decoding never ends.
\<close>

theorem scan_discovers:
  assumes "stream_select (sr_select_join rt)" and "stream_select (sr_select_services rt)"
    and "stream_select (sr_select_collect rt)" and "udp_framing framed" and "message_decoder (sr_decode rt)"
    and "port \<noteq> 0"
    and "exec new_response_collector w = (Inr c, w')"
    and "sr_observe_collector rt new_response_collector = Some (Inr c)"
    and "sr_observe_scanner rt
      (find_ip_neighbor_scanner (sr_windows_rows rt) (sr_linux_rows rt) (sr_json_links rt)) = Some nbs"
    and "sr_observe_socket rt (new_receiver_socket get_discovery_ip port) = Some (Inr socket)"
    and "found = mset (List.map_filter (\<lambda>(remote, request). service_of remote request) (sr_submissions rt)) +
      mset (List.map_filter (\<lambda>i. case i of Inl _ \<Rightarrow> None | Inr (packet, a) \<Rightarrow> announced packet a)
        (received (sr_decode rt) (items (sr_arrivals rt socket))))"
  shows "mset (List.map_filter ok (items (scan (rt\<lparr>sr_framed := framed n\<rparr>) port))) \<subseteq># found \<and>
    (\<not> stalls (sr_decode rt) (items (sr_arrivals rt socket)) \<longrightarrow>
      (\<exists>N. \<forall>n\<ge>N. mset (List.map_filter ok (items (scan (rt\<lparr>sr_framed := framed n\<rparr>) port))) = found))"
proof -
  let ?rc = "grpc_response_collector_of (sr_select_collect rt) (sr_grpc_server rt) (sr_submissions rt)
      (sr_submissions_over rt) c"
  let ?receiver = "\<lambda>n. tokio_packet_receiver (framed n) (sr_decode rt) (sr_observe_socket rt) (sr_arrivals rt)"
  let ?packets = "\<lambda>n. items (?receiver n get_discovery_ip port)"
  let ?announced = "\<lambda>is. mset (List.map_filter
      (\<lambda>i. case i of Inl _ \<Rightarrow> None | Inr (packet, a) \<Rightarrow> announced packet a) is)"
  let ?sending = "sr_observe_requests rt (send_requests (sr_encode rt) tokio_udp_sender nbs
      \<lparr>req_response_collector_port = into_u32 (get_port ?rc)\<rparr> port)"
  have found: "mset (List.map_filter ok (items (scan (rt\<lparr>sr_framed := framed n\<rparr>) port))) =
      mset (List.map_filter (\<lambda>(remote, request). service_of remote request) (sr_submissions rt)) + ?announced (?packets n)"
    for n
  proof -
    have scan: "scan (rt\<lparr>sr_framed := framed n\<rparr>) port = scan_internal (sr_select_join rt) (sr_select_services rt)
        (sr_observe_requests rt) (sr_encode rt) port ?rc tokio_udp_sender (?receiver n) nbs"
      using assms(8,9) by (simp add: scan_def try_join_setup_def)
    obtain merged where merged: "merged \<in> shuffles (map (map_err Collect_Response) (items (collect ?rc)))
          (List.map_filter announcement_item (?packets n))"
      and items: "items (scan (rt\<lparr>sr_framed := framed n\<rparr>) port) \<in>
        shuffles merged (case ?sending of Some (Inl e) \<Rightarrow> [Inl e] | _ \<Rightarrow> [])"
      using scan_internal_yields [OF assms(1,2,6) scan refl] by auto
    have "mset (List.map_filter ok (items (scan (rt\<lparr>sr_framed := framed n\<rparr>) port))) =
        mset (List.map_filter ok (map (map_err Collect_Response) (items (collect ?rc)))) +
        mset (List.map_filter ok (List.map_filter announcement_item (?packets n)))"
      using mset_shuffles [OF map_filter_shuffles [OF items, of ok]]
        mset_shuffles [OF map_filter_shuffles [OF merged, of ok]]
      by (auto simp: ok_def List.map_filter_simps split: option.splits sum.splits)
    moreover have "List.map_filter ok (map (map_err Collect_Response) rs) = List.map_filter ok rs"
      for rs :: "(transport_error, service) result list"
      by (induction rs) (auto simp: List.map_filter_simps result_simps split: sum.split)
    then have "mset (List.map_filter ok (map (map_err Collect_Response) (items (collect ?rc)))) =
        mset (List.map_filter (\<lambda>(remote, request). service_of remote request) (sr_submissions rt))"
      by (simp add: grpc_response_collector_of_def grpc_collect_items [OF assms(3)]
          received_services_items [OF new_collector_channel [OF assms(7)]])
    moreover have "List.map_filter ok (List.map_filter announcement_item is) =
        List.map_filter (\<lambda>i. case i of Inl _ \<Rightarrow> None | Inr (packet, a) \<Rightarrow> announced packet a) is" for "is"
      by (induction "is") (auto simp: announcement_item_def ok_def split: sum.split option.split)
    ultimately show ?thesis by (simp only:)
  qed
  obtain ins over where arrived: "sr_arrivals rt socket = Observed ins over" by (cases "sr_arrivals rt socket")
  note receiver = tokio_packet_receiver_packets [of "sr_observe_socket rt", OF assms(10)]
  obtain rest where "received (sr_decode rt) ins = ?packets n @ rest"
    using framed_prefix [OF assms(4,5), of n ins over] by (auto simp: receiver arrived prefix_def)
  then have "?announced (?packets n) \<subseteq># ?announced (received (sr_decode rt) ins)"
    by (simp add: map_filter_append)
  moreover obtain N where "?packets n = received (sr_decode rt) ins" if "n \<ge> N" for n
    using framed_received [OF assms(4,5), of ins over] unfolding receiver arrived by (metis observed.sel(1))
  ultimately show ?thesis using found assms(11) arrived by (auto intro!: exI [of _ N])
qed

text \<open>
  A concrete scan: one submission that is accepted and one that is refused, one announcement and one
  datagram that is not a packet.
\<close>

definition example_runtime :: scan_runtime where
  "example_runtime =
     \<lparr>sr_select_join = scheduled_select [True], sr_select_services = scheduled_select [False],
      sr_select_collect = scheduled_select [], sr_observe_requests = (\<lambda>_. None),
      sr_observe_socket = (\<lambda>t. Some (fst (exec t fresh_world))),
      sr_observe_collector = (\<lambda>t. Some (fst (exec t fresh_world))),
      sr_observe_scanner = (\<lambda>t. Some (fst (exec t fresh_world))),
      sr_encode = encode_packet, sr_decode = decode_packet, sr_framed = frame_datagrams 0,
      sr_arrivals = (\<lambda>_. Observed
        [Inr (encode_packet (packet_from_response \<lparr>res_service_port = into_u32 99\<rparr>), V6 wildcard_addr),
         Inr ([1], V6 wildcard_addr)] False),
      sr_grpc_server = None,
      sr_submissions = [(Some (V6 wildcard_addr), \<lparr>res_service_port = into_u32 80\<rparr>),
        (Some (V6 wildcard_addr), \<lparr>res_service_port = 0\<rparr>)],
      sr_submissions_over = False, sr_windows_rows = (\<lambda>_. []), sr_linux_rows = (\<lambda>_. []),
      sr_json_links = (\<lambda>_. Inr [])\<rparr>"

theorem scan_discovers_witness:
  "\<exists>N. \<forall>n\<ge>N. mset (List.map_filter ok (items (scan (example_runtime\<lparr>sr_framed := frame_datagrams n\<rparr>) 50000))) =
     {# \<lparr>address = set_port 80 wildcard_addr\<rparr>, \<lparr>address = set_port 99 wildcard_addr\<rparr> #}"
proof -
  let ?p = "packet_from_response \<lparr>res_service_port = into_u32 99\<rparr>"
  obtain c w' where c: "exec new_response_collector fresh_world = (Inr c, w')"
    by (simp add: new_response_collector_def call_defs exec_simps fresh_world_defs Let_def)
  have socket: "fst (exec (new_receiver_socket get_discovery_ip 50000) fresh_world) = Inr 1"
    by (simp add: receiver_socket_defs call_defs exec_simps fresh_world_defs)
  have packet: "message_in decode_packet (encode_packet ?p) = Some (Some ?p)"
    by (simp add: example_messages packet_from_response_def)
  have valid: "service_of (Some (V6 wildcard_addr)) \<lparr>res_service_port = into_u32 80\<rparr>
      = Some \<lparr>address = set_port 80 wildcard_addr\<rparr>"
    and refused: "service_of (Some (V6 wildcard_addr)) \<lparr>res_service_port = 0\<rparr> = None"
    using try_into_u16_into_u32 [of 0] by (simp_all add: service_of_def)
  have found: "announced ?p wildcard_addr = Some \<lparr>address = set_port 99 wildcard_addr\<rparr>"
    by (simp add: announced_def)
  have select: "stream_select (sr_select_join example_runtime)" "stream_select (sr_select_services example_runtime)"
    "stream_select (sr_select_collect example_runtime)"
    by (simp_all add: example_runtime_def scheduled.stream_select_axioms)
  have decoder: "message_decoder (sr_decode example_runtime)"
    by (simp add: example_runtime_def wire.message_decoder_axioms)
  have observed: "sr_observe_collector example_runtime new_response_collector = Some (Inr c)"
    "sr_observe_scanner example_runtime (find_ip_neighbor_scanner (sr_windows_rows example_runtime)
      (sr_linux_rows example_runtime) (sr_json_links example_runtime))
      = Some (fst (exec (find_ip_neighbor_scanner (\<lambda>_. []) (\<lambda>_. []) (\<lambda>_. Inr [])) fresh_world))"
    "sr_observe_socket example_runtime (new_receiver_socket get_discovery_ip 50000) = Some (Inr 1)"
    by (simp_all add: example_runtime_def c socket)
  have arrived: "received (sr_decode example_runtime) (items (sr_arrivals example_runtime 1)) = [Inr (?p, wildcard_addr)]"
    "\<not> stalls (sr_decode example_runtime) (items (sr_arrivals example_runtime 1))"
    by (simp_all add: example_runtime_def packet example_messages(2))
  have submitted: "List.map_filter (\<lambda>(remote, request). service_of remote request) (sr_submissions example_runtime)
      = [\<lparr>address = set_port 80 wildcard_addr\<rparr>]"
    by (simp add: example_runtime_def valid refused List.map_filter_simps)
  have "port \<noteq> 0" if "port = 50000" for port :: u16 using that by simp
  from scan_discovers [OF select framing.udp_framing_axioms decoder this [OF refl] c observed refl] arrived submitted found
  show ?thesis by (simp add: List.map_filter_simps add.commute)
qed

end
