(* ===== verification/Scan_Run.thy ===== *)
theory Scan_Run
  imports Scanner
begin

text \<open>
  A scan as it runs (\<^verbatim>\<open>scan_internal\<close> of \<^verbatim>\<open>main/src/scanner.rs\<close>): a state machine in which the requests are
  sent step by step while the collector and the receiver yield their items, in any order, until the caller
  drops the stream. The streams of \<open>Scanner\<close> are what can be observed of its runs, no more and no less.
\<close>

section \<open>Steps\<close>

text \<open>
  The requests, and whether their outcome has been taken; what the collector and the receiver have yielded,
  and whether they have ended; what the scan has yielded.
\<close>

record scan_state =
  sc_requests :: "(scan_error, unit) result task"
  sc_reported :: bool
  sc_collected :: "(transport_error, service) result list"
  sc_collect_over :: bool
  sc_packets :: "(io_error, discovery_packet \<times> sockaddr_v6) result list"
  sc_packets_over :: bool
  sc_found :: "(scan_error, service) result list"

text \<open>What each of the three sources contributes, as \<^verbatim>\<open>stream::join\<close> and the adapters pass it on.\<close>

definition of_requests :: "(scan_error, unit) result \<Rightarrow> (scan_error, service) result list" where
  "of_requests r = List.map_filter transpose [map_ok (\<lambda>_. None) r]"

definition of_collector :: "(transport_error, service) result \<Rightarrow> (scan_error, service) result list" where
  "of_collector r = [map_err Collect_Response r]"

definition of_receiver ::
  "(io_error, discovery_packet \<times> sockaddr_v6) result \<Rightarrow> (scan_error, service) result list" where
  "of_receiver i =
     List.map_filter transpose [map_ok (\<lambda>(packet, a). ok (extract_service packet a)) (map_err Send_Request i)]"

definition scan_start ::
  "(discovery_packet \<Rightarrow> byte list) \<Rightarrow> u16 \<Rightarrow> u16 \<Rightarrow> udp_sender \<Rightarrow> ip_neighbor_scanner \<Rightarrow> scan_state" where
  "scan_start encode discovery_port collector_port udp_sender ip_neighbor_scanner =
     (let invalid = (discovery_port = 0); request = \<lparr>req_response_collector_port = into_u32 collector_port\<rparr>
      in \<lparr>sc_requests =
            (if invalid then Ret (Inl Scan_Invalid_Discovery_Port)
             else send_requests encode udp_sender ip_neighbor_scanner request discovery_port),
          sc_reported = False, sc_collected = [], sc_collect_over = invalid, sc_packets = [],
          sc_packets_over = invalid, sc_found = []\<rparr>)"

inductive scan_step :: "scan_state \<times> world \<Rightarrow> scan_state \<times> world \<Rightarrow> bool" where
  requesting: "sc_requests s = Act f \<Longrightarrow> f w = (t, w') \<Longrightarrow> scan_step (s, w) (s\<lparr>sc_requests := t\<rparr>, w')"
| reported: "sc_requests s = Ret r \<Longrightarrow> \<not> sc_reported s \<Longrightarrow>
    scan_step (s, w) (s\<lparr>sc_reported := True, sc_found := sc_found s @ of_requests r\<rparr>, w)"
| collected: "\<not> sc_collect_over s \<Longrightarrow>
    scan_step (s, w) (s\<lparr>sc_collected := sc_collected s @ [r], sc_found := sc_found s @ of_collector r\<rparr>, w)"
| collect_over: "scan_step (s, w) (s\<lparr>sc_collect_over := True\<rparr>, w)"
| packet: "\<not> sc_packets_over s \<Longrightarrow>
    scan_step (s, w) (s\<lparr>sc_packets := sc_packets s @ [i], sc_found := sc_found s @ of_receiver i\<rparr>, w)"
| packets_over: "scan_step (s, w) (s\<lparr>sc_packets_over := True\<rparr>, w)"

abbreviation scan_run :: "scan_state \<times> world \<Rightarrow> scan_state \<times> world \<Rightarrow> bool" where
  "scan_run \<equiv> scan_step\<^sup>*\<^sup>*"

text \<open>The stream as its caller sees it.\<close>

definition scan_seen :: "scan_state \<Rightarrow> (scan_error, service) result observed" where
  "scan_seen s = Observed (sc_found s) (sc_reported s \<and> sc_collect_over s \<and> sc_packets_over s)"

text \<open>A future is observed truthfully when it is pending, or has the result it comes to.\<close>

definition truthful :: "('a task \<Rightarrow> 'a option) \<Rightarrow> 'a task \<Rightarrow> world \<Rightarrow> bool" where
  "truthful observe t w \<longleftrightarrow> observe t = None \<or> observe t = Some (fst (exec t w))"

lemma of_receiver_item:
  "of_receiver i = (case announcement_item i of None \<Rightarrow> [] | Some item \<Rightarrow> [item])"
proof -
  have "List.map_filter announcement_item [i] = of_receiver i"
    using receive_announcements_items [of "\<lambda>_ _. Observed [i] False"]
    by (simp add: of_receiver_def receive_announcements_def)
  then show ?thesis by (cases "announcement_item i") (simp_all add: List.map_filter_simps)
qed

lemma concat_of_receiver: "concat (map of_receiver is) = List.map_filter announcement_item is"
  by (induction "is") (simp_all add: of_receiver_item List.map_filter_simps split: option.split)

lemma concat_of_collector: "concat (map of_collector rs) = map (map_err Collect_Response) rs"
  by (induction rs) (simp_all add: of_collector_def)

lemma of_requests_simps [simp]: "of_requests (Inl e) = [Inl e]" "of_requests (Inr u) = []"
  by (simp_all add: of_requests_def result_simps List.map_filter_simps)

lemma of_requests_future: "of_requests r = future_error id (Some r)"
  by (cases r) (simp_all add: future_error_def)

section \<open>Shuffles\<close>

lemma snoc_in_shuffles: "ys @ [z] \<in> shuffles [z] ys"
  using append_in_shuffles [of ys "[z]"] by (simp add: shuffles_commutes)

lemma shuffles_snoc_left: "zs \<in> shuffles xs ys \<Longrightarrow> zs @ [z] \<in> shuffles (xs @ [z]) ys"
  by (induction xs ys arbitrary: zs rule: shuffles.induct)
    (auto intro: Cons_in_shuffles_leftI Cons_in_shuffles_rightI snoc_in_shuffles)

lemma shuffles_snoc_right: "zs \<in> shuffles xs ys \<Longrightarrow> zs @ [z] \<in> shuffles xs (ys @ [z])"
  using shuffles_snoc_left [of zs ys xs] by (simp add: shuffles_commutes)

lemma map_in_shuffles: "zs \<in> shuffles xs ys \<Longrightarrow> map f zs \<in> shuffles (map f xs) (map f ys)"
  by (induction xs ys arbitrary: zs rule: shuffles.induct)
    (auto intro: Cons_in_shuffles_leftI Cons_in_shuffles_rightI)

text \<open>
  A shuffle of what two lists of events contribute, at most one item each, comes from a shuffle of the events.
\<close>

lemma shuffles_of_events:
  assumes "\<And>x. length (f x) \<le> 1" and "\<And>y. length (g y) \<le> 1"
    and "zs \<in> shuffles (concat (map f xs)) (concat (map g ys))"
  shows "\<exists>evs \<in> shuffles (map Inl xs) (map Inr ys). concat (map (case_sum f g) evs) = zs"
  using assms(3)
proof (induction xs arbitrary: ys zs)
  case Nil
  then show ?case by (simp add: comp_def)
next
  case (Cons x xs)
  note IH = Cons.IH
  from Cons.prems show ?case
  proof (induction ys arbitrary: zs)
    case Nil
    then show ?case by (simp add: comp_def)
  next
    case (Cons y ys)
    have cases: "f x = [] \<or> (\<exists>a. f x = [a])" "g y = [] \<or> (\<exists>b. g y = [b])"
      using assms(1) [of x] assms(2) [of y] by (cases "f x"; cases "g y"; auto)+
    consider (left) zs' where "zs = f x @ zs'" "zs' \<in> shuffles (concat (map f xs)) (concat (map g (y # ys)))"
      | (right) zs' where "zs = g y @ zs'" "zs' \<in> shuffles (concat (map f (x # xs))) (concat (map g ys))"
      using Cons.prems cases by (cases zs) auto
    then show ?case
    proof cases
      case left
      with IH obtain evs where "evs \<in> shuffles (map Inl xs) (map Inr (y # ys))"
        "concat (map (case_sum f g) evs) = zs'" by blast
      then show ?thesis using left(1) by (intro bexI [of _ "Inl x # evs"]) (auto intro: Cons_in_shuffles_leftI)
    next
      case right
      with Cons.IH obtain evs where "evs \<in> shuffles (map Inl (x # xs)) (map Inr ys)"
        "concat (map (case_sum f g) evs) = zs'" by blast
      then show ?thesis using right(1) by (intro bexI [of _ "Inr y # evs"]) (auto intro: Cons_in_shuffles_rightI)
    qed
  qed
qed

section \<open>What a run has yielded\<close>

definition scan_invariant :: "(scan_error, unit) result task \<Rightarrow> world \<Rightarrow> scan_state \<times> world \<Rightarrow> bool" where
  "scan_invariant t w sw \<longleftrightarrow>
     (case sw of (s, w') \<Rightarrow>
        exec (sc_requests s) w' = exec t w \<and>
        (sc_reported s \<longrightarrow> (\<exists>r. sc_requests s = Ret r)) \<and>
        (\<exists>S \<in> shuffles (concat (map of_collector (sc_collected s))) (concat (map of_receiver (sc_packets s))).
           sc_found s \<in> shuffles S (if sc_reported s then of_requests (fst (exec t w)) else [])))"

lemma scan_invariant_step:
  assumes "scan_step c c'" and "scan_invariant t w c"
  shows "scan_invariant t w c'"
  using assms
proof (induction rule: scan_step.cases)
  case (requesting s f v t' v')
  then show ?case by (auto simp: scan_invariant_def exec_Act)
next
  case (reported s r v)
  then have r: "fst (exec t w) = r" by (auto simp: scan_invariant_def) (metis fst_conv)
  obtain S where S: "S \<in> shuffles (concat (map of_collector (sc_collected s))) (concat (map of_receiver (sc_packets s)))"
    "sc_found s = S" using reported by (auto simp: scan_invariant_def)
  then show ?case using reported r by (auto simp: scan_invariant_def intro!: bexI [of _ S])
next
  case (collected s v r)
  then obtain S where S: "S \<in> shuffles (concat (map of_collector (sc_collected s))) (concat (map of_receiver (sc_packets s)))"
    "sc_found s \<in> shuffles S (if sc_reported s then of_requests (fst (exec t w)) else [])"
    by (auto simp: scan_invariant_def)
  have one: "of_collector r = [map_err Collect_Response r]" by (simp add: of_collector_def)
  show ?case
    using collected shuffles_snoc_left [OF S(1)] shuffles_snoc_left [OF S(2)]
    by (auto simp: scan_invariant_def one intro!: bexI [of _ "S @ [map_err Collect_Response r]"])
next
  case (packet s v i)
  then obtain S where S: "S \<in> shuffles (concat (map of_collector (sc_collected s))) (concat (map of_receiver (sc_packets s)))"
    "sc_found s \<in> shuffles S (if sc_reported s then of_requests (fst (exec t w)) else [])"
    by (auto simp: scan_invariant_def)
  show ?case
  proof (cases "announcement_item i")
    case None
    then show ?thesis using packet S by (auto simp: scan_invariant_def of_receiver_item)
  next
    case (Some item)
    then show ?thesis
      using packet shuffles_snoc_right [OF S(1)] shuffles_snoc_left [OF S(2)]
      by (auto simp: scan_invariant_def of_receiver_item intro!: bexI [of _ "S @ [item]"])
  qed
qed (auto simp: scan_invariant_def)

lemma scan_run_invariant:
  assumes "scan_run (s0, w) c" and "s0 = scan_start encode port cport sender nbs"
  shows "scan_invariant (sc_requests s0) w c"
  using assms
proof (induction rule: rtranclp_induct)
  case base
  show ?case by (simp add: scan_invariant_def assms(2) scan_start_def Let_def)
next
  case (step c c')
  then show ?case using scan_invariant_step by blast
qed

section \<open>A run for everything that can be observed\<close>

text \<open>The requests can be run to their end at once.\<close>

lemma scan_run_requests:
  "exec t w = (r, w') \<Longrightarrow> scan_run (s\<lparr>sc_requests := t\<rparr>, w) (s\<lparr>sc_requests := Ret r\<rparr>, w')"
proof (induction t arbitrary: w rule: task_induct)
  case (Act f)
  obtain t w1 where f: "f w = (t, w1)" by (cases "f w")
  have "scan_step (s\<lparr>sc_requests := Act f\<rparr>, w) ((s\<lparr>sc_requests := Act f\<rparr>)\<lparr>sc_requests := t\<rparr>, w1)"
    using scan_step.requesting [of "s\<lparr>sc_requests := Act f\<rparr>" f w t w1] f by simp
  then have "scan_step (s\<lparr>sc_requests := Act f\<rparr>, w) (s\<lparr>sc_requests := t\<rparr>, w1)" by simp
  moreover have "exec t w1 = (r, w')" using Act.prems f by (simp add: exec_Act)
  ultimately show ?case using Act.IH [OF f] by (meson converse_rtranclp_into_rtranclp)
qed simp

text \<open>Then the events of the collector, of the receiver, and the outcome of the requests, in any order.\<close>

abbreviation of_source ::
  "(transport_error, service) result + (io_error, discovery_packet \<times> sockaddr_v6) result \<Rightarrow>
   (scan_error, service) result list" where
  "of_source \<equiv> case_sum of_collector of_receiver"

fun lefts :: "('a + 'b) list \<Rightarrow> 'a list" where
  "lefts [] = []"
| "lefts (Inl x # zs) = x # lefts zs"
| "lefts (Inr y # zs) = lefts zs"

fun rights :: "('a + 'b) list \<Rightarrow> 'b list" where
  "rights [] = []"
| "rights (Inl x # zs) = rights zs"
| "rights (Inr y # zs) = y # rights zs"

lemma lefts_rights_append [simp]:
  "lefts (xs @ ys) = lefts xs @ lefts ys" "rights (xs @ ys) = rights xs @ rights ys"
  by (induction xs rule: lefts.induct) auto

lemma shuffles_lefts_rights:
  "zs \<in> shuffles (map Inl xs) (map Inr ys) \<Longrightarrow> lefts zs = xs \<and> rights zs = ys"
proof (induction zs arbitrary: xs ys)
  case (Cons z zs)
  then consider (left) x xs' where "xs = x # xs'" "z = Inl x" "zs \<in> shuffles (map Inl xs') (map Inr ys)"
    | (right) y ys' where "ys = y # ys'" "z = Inr y" "zs \<in> shuffles (map Inl xs) (map Inr ys')"
    by (cases xs; cases ys) (auto simp: Cons_in_shuffles_iff)
  then show ?case using Cons.IH by cases auto
qed auto

lemma scan_state_commute:
  "s\<lparr>sc_packets := is, sc_collected := rs\<rparr> = s\<lparr>sc_collected := rs, sc_packets := is\<rparr>"
  "s\<lparr>sc_packets := is, sc_reported := b\<rparr> = s\<lparr>sc_reported := b, sc_packets := is\<rparr>"
  "s\<lparr>sc_collected := rs, sc_reported := b\<rparr> = s\<lparr>sc_reported := b, sc_collected := rs\<rparr>"
  by (cases s; simp)+

lemma scan_run_events:
  assumes "sc_requests s = Ret r" and "\<not> sc_reported s" and "\<not> sc_collect_over s" and "\<not> sc_packets_over s"
    and "length (rights evs) \<le> 1" and "set (rights evs) \<subseteq> {r}"
  shows "scan_run (s, w) (s\<lparr>sc_reported := (rights evs \<noteq> []),
    sc_collected := sc_collected s @ lefts (lefts evs), sc_packets := sc_packets s @ rights (lefts evs),
    sc_found := sc_found s @ concat (map (case_sum of_source of_requests) evs)\<rparr>, w)"
  using assms(5,6)
proof (induction evs rule: rev_induct)
  case Nil
  have "s\<lparr>sc_reported := False\<rparr> = s" using assms(2) by (cases s) simp
  then show ?case by simp
next
  case (snoc ev evs)
  let ?s = "\<lambda>evs. s\<lparr>sc_reported := (rights evs \<noteq> []),
    sc_collected := sc_collected s @ lefts (lefts evs), sc_packets := sc_packets s @ rights (lefts evs),
    sc_found := sc_found s @ concat (map (case_sum of_source of_requests) evs)\<rparr>"
  have run: "scan_run (s, w) (?s evs, w)" using snoc by simp
  have "scan_step (?s evs, w) (?s (evs @ [ev]), w)"
  proof (cases ev)
    case (Inl src)
    show ?thesis
    proof (cases src)
      case (Inl item)
      then show ?thesis
        using scan_step.collected [of "?s evs" w item] assms(3) \<open>ev = Inl src\<close>
        by (simp add: scan_state_commute(1))
    next
      case (Inr item)
      then show ?thesis
        using scan_step.packet [of "?s evs" w item] assms(4) \<open>ev = Inl src\<close> by simp
    qed
  next
    case (Inr r')
    then have "r' = r" "rights evs = []" using snoc.prems by auto
    then show ?thesis using scan_step.reported [of "?s evs" r w] assms(1) Inr
      by (simp add: scan_state_commute(2,3))
  qed
  with run show ?case by (rule rtranclp.rtrancl_into_rtrancl)
qed

section \<open>Runs and observed streams\<close>

lemma map_err_id [simp]: "map_err id = (id :: ('e, 'a) result \<Rightarrow> ('e, 'a) result)"
  by (auto simp: map_err_def split: sum.split)

text \<open>Every shuffle of a stream and the error of a future is the join under some schedule.\<close>

lemma join_complete:
  fixes future :: "('r, 'u) result option"
  assumes "outs \<in> shuffles (items stream) (future_error id future)"
  shows "\<exists>sch. items (join (scheduled_select sch) id id future stream) = outs"
proof (cases "future_error id future :: ('r, 'a) result list")
  case Nil
  then show ?thesis
    using assms join_shuffles [OF scheduled.stream_select_axioms [of "[]"], of id id future stream] by auto
next
  case (Cons x rest)
  then obtain e where future: "future = Some (Inl e)"
    by (auto simp: future_error_def split: option.splits sum.splits)
  let ?wrap = "map_ok Some :: ('r, 'a) result \<Rightarrow> ('r, 'a option) result"
  have "map ?wrap outs \<in> shuffles (map ?wrap (items stream)) (map ?wrap [Inl e])"
    by (rule map_in_shuffles) (use assms in \<open>simp add: future future_error_def\<close>)
  then have "map ?wrap outs \<in> shuffles (map ?wrap (items stream)) [Inl e]" by (simp add: result_simps)
  then obtain sch where "merge_by sch (map ?wrap (items stream)) [Inl e] = map ?wrap outs"
    using merge_by_complete by blast
  moreover have "List.map_filter transpose (map ?wrap outs) = outs"
    using transpose_wrapped_stream [of id outs] by simp
  moreover have "map_ok (\<lambda>_. None) (Inl e :: ('r, 'u) result) = (Inl e :: ('r, 'a option) result)"
    by (simp add: map_ok_def)
  ultimately show ?thesis
    by (intro exI [of _ sch]) (simp add: join_def Let_def scheduled_select_def future)
qed

lemma scan_run_observed:
  assumes "port \<noteq> 0"
    and "scan_run (scan_start encode port cport sender nbs, w) (s, w')"
  shows "\<exists>sch1 sch2 observe.
    truthful observe (send_requests encode sender nbs \<lparr>req_response_collector_port = into_u32 cport\<rparr> port) w \<and>
    scan_seen s = scan_internal (scheduled_select sch1) (scheduled_select sch2) observe encode port
      \<lparr>get_port = cport, collect = Observed (sc_collected s) (sc_collect_over s)\<rparr> sender
      (\<lambda>_ _. Observed (sc_packets s) (sc_packets_over s)) nbs"
proof -
  let ?t = "send_requests encode sender nbs \<lparr>req_response_collector_port = into_u32 cport\<rparr> port"
  let ?future = "if sc_reported s then Some (fst (exec ?t w)) else None"
  let ?receiver = "\<lambda>_ _. Observed (sc_packets s) (sc_packets_over s)"
  let ?collect = "stream_map (map_err Collect_Response) (Observed (sc_collected s) (sc_collect_over s))"
  let ?announcements = "receive_announcements ?receiver get_discovery_ip port"
  obtain S where S: "S \<in> shuffles (items ?collect) (items ?announcements)"
    and found: "sc_found s \<in> shuffles S (future_error id ?future)"
    using scan_run_invariant [OF assms(2) refl] assms(1)
    by (auto simp: scan_invariant_def scan_start_def Let_def concat_of_collector concat_of_receiver receive_announcements_items
        of_requests_future future_error_def split: if_splits)
  obtain sch2 where sch2: "merge_by sch2 (items ?collect) (items ?announcements) = S"
    using merge_by_complete [OF S] by blast
  let ?services = "scheduled_select sch2 ?collect ?announcements"
  have "items ?services = S" using sch2 by (simp add: scheduled_select_def)
  with found obtain sch1 where "items (join (scheduled_select sch1) id id ?future ?services) = sc_found s"
    using join_complete by metis
  then have "scan_seen s = join (scheduled_select sch1) id id ?future ?services"
    using join_ended [OF scheduled.stream_select_axioms, of sch1 id id ?future ?services]
    by (intro observed_eqI)
      (auto simp: scan_seen_def scheduled_select_def receive_announcements_def)
  then have "truthful (\<lambda>_. ?future) ?t w \<and>
    scan_seen s = scan_internal (scheduled_select sch1) (scheduled_select sch2) (\<lambda>_. ?future) encode port
      \<lparr>get_port = cport, collect = Observed (sc_collected s) (sc_collect_over s)\<rparr> sender ?receiver nbs"
    using assms(1) by (simp add: truthful_def scan_internal_def Let_def)
  then show ?thesis by blast
qed

lemma at_most_one: "length (of_source src) \<le> 1" "length (of_collector r) \<le> 1" "length (of_receiver i) \<le> 1"
  "length (of_requests u) \<le> 1"
  by (cases src; cases u; simp add: of_collector_def of_receiver_item split: option.split)+

lemma scan_run_over:
  "scan_run (s, w) (s\<lparr>sc_collect_over := sc_collect_over s \<or> e1, sc_packets_over := sc_packets_over s \<or> e2\<rparr>, w)"
proof -
  let ?s1 = "s\<lparr>sc_collect_over := sc_collect_over s \<or> e1\<rparr>"
  have "scan_run (s, w) (?s1, w)"
  proof (cases e1)
    case True
    then show ?thesis using scan_step.collect_over [of s w] by auto
  next
    case False
    then show ?thesis by simp
  qed
  moreover have "scan_run (?s1, w) (?s1\<lparr>sc_packets_over := sc_packets_over ?s1 \<or> e2\<rparr>, w)"
  proof (cases e2)
    case True
    then show ?thesis using scan_step.packets_over [of ?s1 w] by auto
  next
    case False
    then show ?thesis by simp
  qed
  ultimately show ?thesis by simp
qed

lemma scan_observed_run:
  assumes "port \<noteq> 0"
    and "truthful observe (send_requests encode sender nbs \<lparr>req_response_collector_port = into_u32 cport\<rparr> port) w"
    and "seen = scan_internal (scheduled_select sch1) (scheduled_select sch2) observe encode port
      \<lparr>get_port = cport, collect = Observed C e1\<rparr> sender (\<lambda>_ _. Observed A e2) nbs"
  shows "\<exists>s w'. scan_run (scan_start encode port cport sender nbs, w) (s, w') \<and> sc_collected s = C \<and>
    sc_collect_over s = e1 \<and> sc_packets s = A \<and> sc_packets_over s = e2 \<and> scan_seen s = seen"
proof -
  let ?t = "send_requests encode sender nbs \<lparr>req_response_collector_port = into_u32 cport\<rparr> port"
  let ?start = "scan_start encode port cport sender nbs"
  obtain r w1 where r: "exec ?t w = (r, w1)" by (cases "exec ?t w")
  let ?rs = "case observe ?t of None \<Rightarrow> [] | Some r \<Rightarrow> [r]"
  from scan_internal_yields [OF scheduled.stream_select_axioms scheduled.stream_select_axioms assms(1,3) refl]
  obtain S where S: "S \<in> shuffles (concat (map of_collector C)) (concat (map of_receiver A))"
    and found: "items seen \<in> shuffles S (case observe ?t of Some (Inl e) \<Rightarrow> [Inl e] | _ \<Rightarrow> [])"
    and over: "ended seen \<longleftrightarrow> observe ?t \<noteq> None \<and> e1 \<and> e2"
    by (auto simp: concat_of_collector concat_of_receiver)
  obtain srcs where srcs: "srcs \<in> shuffles (map Inl C) (map Inr A)" "concat (map of_source srcs) = S"
    using shuffles_of_events [of of_collector of_receiver, OF at_most_one(2,3) S] by blast
  have "items seen \<in> shuffles (concat (map of_source srcs)) (concat (map of_requests ?rs))"
    using found srcs(2) by (auto split: option.splits sum.splits)
  then obtain evs where evs: "evs \<in> shuffles (map Inl srcs) (map Inr ?rs)"
    "concat (map (case_sum of_source of_requests) evs) = items seen"
    using shuffles_of_events [of of_source of_requests, OF at_most_one(1,4)] by blast
  note parts = shuffles_lefts_rights [OF evs(1)] shuffles_lefts_rights [OF srcs(1)]
  let ?s1 = "?start\<lparr>sc_requests := Ret r\<rparr>"
  let ?s2 = "?s1\<lparr>sc_reported := (rights evs \<noteq> []),
      sc_collected := sc_collected ?s1 @ lefts (lefts evs), sc_packets := sc_packets ?s1 @ rights (lefts evs),
      sc_found := sc_found ?s1 @ concat (map (case_sum of_source of_requests) evs)\<rparr>"
  have requests: "scan_run (?start, w) (?s1, w1)"
    using scan_run_requests [OF r, of ?start] assms(1) by (simp add: scan_start_def Let_def)
  have events: "scan_run (?s1, w1) (?s2, w1)"
    by (rule scan_run_events [where r = r])
      (use parts r assms(1,2) in \<open>auto simp: scan_start_def Let_def truthful_def split: option.splits\<close>)
  let ?s3 = "?s2\<lparr>sc_collect_over := sc_collect_over ?s2 \<or> e1, sc_packets_over := sc_packets_over ?s2 \<or> e2\<rparr>"
  have "scan_run (?start, w) (?s3, w1)"
    by (rule rtranclp_trans [OF rtranclp_trans [OF requests events] scan_run_over])
  moreover have "sc_collected ?s3 = C" "sc_packets ?s3 = A" "sc_collect_over ?s3 = e1" "sc_packets_over ?s3 = e2"
    using parts assms(1) by (simp_all add: scan_start_def Let_def)
  moreover have "scan_seen ?s3 = seen"
    using parts evs(2) over assms(1)
    by (intro observed_eqI) (simp_all add: scan_start_def Let_def scan_seen_def split: option.split)
  ultimately show ?thesis by blast
qed

section \<open>Dropping a scan\<close>

text \<open>A task that only adds to the trace.\<close>

inductive grows :: "'a task \<Rightarrow> bool" where
  returned: "grows (Ret x)"
| stepping: "(\<And>w. grows (fst (f w)) \<and> (\<exists>es. trace (snd (f w)) = trace w @ es)) \<Longrightarrow> grows (Act f)"

inductive_cases grows_ActE: "grows (Act f)"

lemma grows_bind: "grows t \<Longrightarrow> (\<And>x. grows (k x)) \<Longrightarrow> grows (task_bind t k)"
proof (induction rule: grows.induct)
  case (stepping f)
  then show ?case by (auto intro!: grows.stepping)
qed simp

lemma grows_await: "grows t \<Longrightarrow> (\<And>x. grows (k x)) \<Longrightarrow> grows (try_await conv t k)"
  unfolding try_await_def by (rule grows_bind) (auto intro: grows.returned split: sum.split)

lemma grows_syscall: "grows (syscall ask ev)"
  unfolding syscall_def by (rule grows.stepping) (simp add: Let_def grows.returned)

lemma grows_debug: "grows debug_enabled"
  unfolding debug_enabled_def by (rule grows.stepping) (simp add: grows.returned)

lemma grows_exec: "grows t \<Longrightarrow> \<exists>es. trace (snd (exec t w)) = trace w @ es"
proof (induction arbitrary: w rule: grows.induct)
  case (stepping f)
  obtain t w1 where f: "f w = (t, w1)" by (cases "f w")
  obtain es where "trace w1 = trace w @ es" using stepping [of w] f by auto
  moreover obtain es' where "trace (snd (exec t w1)) = trace w1 @ es'" using stepping [of w] f by auto
  ultimately show ?case using f by (simp add: exec_Act)
qed simp

lemmas grows_intros = grows.returned grows_await grows_bind grows_syscall grows_debug

lemma grows_tokio:
  "grows (send_multicast tokio_udp_sender a d)" "grows (send_unicast tokio_udp_sender a d)"
  by (auto simp: tokio_udp_sender_def tokio_send_multicast_def tokio_send_unicast_def new_sender_socket_def
      call_defs intro!: grows_intros)

lemma grows_commands: "grows (run c args)" "grows (eval c args inp)"
  by (auto simp: run_def eval_def read_stdout_def call_defs intro!: grows_intros split: option.split)

lemma grows_scanners:
  "grows (scan_neighbors (windows_scanner windows_rows))"
  "grows (scan_neighbors (linux_scanner linux_rows json_links))"
  "grows (scan_neighbors dummy_scanner)"
  by (auto simp: windows_scanner_def windows_scan_def linux_scanner_def linux_scan_def dummy_scanner_def
      intro!: grows_intros grows_commands)

lemma grows_send_requests:
  assumes "\<And>a d. grows (send_multicast sender a d)" and "\<And>a d. grows (send_unicast sender a d)"
    and "grows (scan_neighbors nbs)"
  shows "grows (send_requests encode sender nbs request port)"
proof -
  have "grows (send_to_neighbors sender port d ns)" for d ns
    by (induction ns) (auto simp: Let_def intro!: grows_intros assms)
  then show ?thesis using assms by (auto simp: send_requests_def Let_def intro!: grows_intros)
qed

lemma scan_run_grows:
  assumes "scan_run (s0, w) (s, w')" and "grows (sc_requests s0)"
  shows "grows (sc_requests s) \<and> (\<exists>es. trace w' = trace w @ es)"
  using assms
proof (induction "(s, w')" arbitrary: s w' rule: rtranclp_induct)
  case (step c)
  obtain s1 w1 where c: "c = (s1, w1)" by (cases c)
  with step have IH: "grows (sc_requests s1)" "\<exists>es. trace w1 = trace w @ es" by blast+
  from step(2) [unfolded c] show ?case
  proof (cases rule: scan_step.cases)
    case (requesting f t)
    then have "grows t" "\<exists>es. trace w' = trace w1 @ es"
      using IH(1) by (metis fst_conv grows_ActE, metis grows_ActE snd_conv)
    then show ?thesis using IH(2) requesting by auto
  qed (use IH in auto)
qed blast

section \<open>Properties\<close>

text \<open>
  C9: The stream of a scan is exactly what its runs show. Whatever a run of the state machine,
  with its requests, collection and reception interleaved in any way, has yielded, is what the stream
  combinators yield under some merges and a truthful observation of the requests; and everything they can
  yield arises from a run.
\<close>

theorem scan_runs_observed:
  assumes "port \<noteq> 0"
  shows "(\<exists>s w'. scan_run (scan_start encode port cport sender nbs, w) (s, w') \<and> sc_collected s = C \<and>
      sc_collect_over s = e1 \<and> sc_packets s = A \<and> sc_packets_over s = e2 \<and> scan_seen s = seen) \<longleftrightarrow>
    (\<exists>sch1 sch2 observe.
      truthful observe (send_requests encode sender nbs \<lparr>req_response_collector_port = into_u32 cport\<rparr> port) w \<and>
      seen = scan_internal (scheduled_select sch1) (scheduled_select sch2) observe encode port
        \<lparr>get_port = cport, collect = Observed C e1\<rparr> sender (\<lambda>_ _. Observed A e2) nbs)"
proof
  assume "\<exists>s w'. scan_run (scan_start encode port cport sender nbs, w) (s, w') \<and> sc_collected s = C \<and>
    sc_collect_over s = e1 \<and> sc_packets s = A \<and> sc_packets_over s = e2 \<and> scan_seen s = seen"
  then show "\<exists>sch1 sch2 observe.
      truthful observe (send_requests encode sender nbs \<lparr>req_response_collector_port = into_u32 cport\<rparr> port) w \<and>
      seen = scan_internal (scheduled_select sch1) (scheduled_select sch2) observe encode port
        \<lparr>get_port = cport, collect = Observed C e1\<rparr> sender (\<lambda>_ _. Observed A e2) nbs"
    using scan_run_observed [OF assms] by blast
qed (use scan_observed_run [OF assms] in blast)

theorem scan_runs_observed_witness:
  "\<exists>s w'. scan_run (scan_start encode_packet 50000 4000 tokio_udp_sender dummy_scanner, fresh_world) (s, w') \<and>
     sc_collected s = [Inr example_found] \<and> scan_seen s = Observed [Inr example_found] False"
proof -
  let ?seen = "scan_internal (scheduled_select []) (scheduled_select []) (\<lambda>_. None) encode_packet 50000
    \<lparr>get_port = 4000, collect = Observed [Inr example_found] False\<rparr> tokio_udp_sender (\<lambda>_ _. Observed [] False)
    dummy_scanner"
  have "?seen = Observed [Inr example_found] False"
    by (simp add: scan_internal_def Let_def join_def scheduled_select_def stream_map_def stream_filter_map_def
        into_stream_def receive_announcements_def List.map_filter_simps result_simps)
  then have "\<exists>sch1 sch2 observe. truthful observe (send_requests encode_packet tokio_udp_sender dummy_scanner
      \<lparr>req_response_collector_port = into_u32 4000\<rparr> 50000) fresh_world \<and>
    Observed [Inr example_found] False = scan_internal (scheduled_select sch1) (scheduled_select sch2) observe
      encode_packet 50000 \<lparr>get_port = 4000, collect = Observed [Inr example_found] False\<rparr> tokio_udp_sender
      (\<lambda>_ _. Observed [] False) dummy_scanner"
    by (intro exI [of _ "[]"] exI [of _ "\<lambda>_. None"]) (simp add: truthful_def)
  from scan_runs_observed [THEN iffD2, OF _ this] show ?thesis by auto
qed

text \<open>
  C10: A scan can be dropped at any moment. For an invalid port it has sent nothing. Otherwise, if
  its request cannot be sent to the multicast address, it sends nothing; if then its scan for neighbours
  fails, it sends at most that; and if that scan finds neighbours, what it has sent by then is a beginning of
  the multicast request followed by one request for each neighbour found, in their order, at a unicast address;
  it is all of these when its requests had succeeded.
\<close>

theorem scan_dropped:
  assumes "nbs \<in> {windows_scanner windows_rows, linux_scanner linux_rows json_links, dummy_scanner}"
    and "scan_run (scan_start encode port cport tokio_udp_sender nbs, w) (s, w')"
    and "mc = (socket_addr_v6 get_discovery_ip port 0 0,
      encode (packet_from_request \<lparr>req_response_collector_port = into_u32 cport\<rparr>))"
  shows "\<exists>sent. datagrams w' = datagrams w @ sent \<and>
    (if port = 0 then sent = []
     else case exec (tokio_send_multicast (fst mc) (snd mc)) w of
            (Inl e, _) \<Rightarrow> sent = []
          | (Inr _, w1) \<Rightarrow>
              (case exec (scan_neighbors nbs) w1 of
                 (Inl e, _) \<Rightarrow> prefix sent [mc]
               | (Inr ns, _) \<Rightarrow>
                   prefix sent (mc # map (\<lambda>n. (get_socket_address n port, snd mc)) ns) \<and>
                   (\<forall>n\<in>set ns. is_valid_ip (nb_address n)) \<and>
                   (sc_requests s = Ret (Inr ()) \<longrightarrow>
                      sent = mc # map (\<lambda>n. (get_socket_address n port, snd mc)) ns)))"
proof -
  let ?t = "sc_requests (scan_start encode port cport tokio_udp_sender nbs)"
  have contract: "neighbor_scanner_contract nbs" and "grows (scan_neighbors nbs)"
    using assms(1) linux.neighbor_scanner_contract_axioms windows.neighbor_scanner_contract_axioms
      dummy.neighbor_scanner_contract_axioms grows_scanners by auto
  then have "grows ?t"
    by (auto simp: scan_start_def Let_def intro!: grows.returned grows_send_requests grows_tokio)
  then have run: "grows (sc_requests s)" "\<exists>es. trace w' = trace w @ es"
    using scan_run_grows [OF assms(2)] by simp_all
  have final: "exec (sc_requests s) w' = exec ?t w"
    using scan_run_invariant [OF assms(2) refl] by (simp add: scan_invariant_def)
  obtain r w2 where r: "exec ?t w = (r, w2)" by (cases "exec ?t w")
  then have "\<exists>es. trace w2 = trace w' @ es" using run grows_exec [of "sc_requests s" w'] final by simp
  with run obtain sent rest where sent: "datagrams w' = datagrams w @ sent" "datagrams w2 = datagrams w' @ rest"
    by (auto simp: log_of_def)
  then have all: "datagrams w2 = datagrams w @ sent @ rest" by simp
  have complete: "r = Inr () \<and> rest = []" if "sc_requests s = Ret (Inr ())"
  proof -
    have "r = Inr ()" "w2 = w'" using final r unfolding that exec_Ret by simp_all
    then show ?thesis using sent(2) by simp
  qed
  show ?thesis
  proof (cases "port = 0")
    case True
    then have "sent @ rest = []" using r all by (auto simp: scan_start_def Let_def)
    then show ?thesis using True sent by auto
  next
    case False
    then have "exec (send_requests encode tokio_udp_sender nbs
        \<lparr>req_response_collector_port = into_u32 cport\<rparr> port) w = (r, w2)"
      using r by (simp add: scan_start_def Let_def)
    note calls = exec_send_requests_by_calls [OF tokio.udp_sender_contract_axioms contract this assms(3)]
    obtain r1 w1 where m: "exec (send_multicast tokio_udp_sender (fst mc) (snd mc)) w = (r1, w1)"
      by (cases "exec (send_multicast tokio_udp_sender (fst mc) (snd mc)) w")
    then have m': "exec (tokio_send_multicast (fst mc) (snd mc)) w = (r1, w1)" by (simp add: tokio_udp_sender_def)
    obtain r2 w3 where n: "exec (scan_neighbors nbs) w1 = (r2, w3)" by (cases "exec (scan_neighbors nbs) w1")
    consider (unsent) e where "r1 = Inl e" "sent @ rest = []"
      | (unfound) u e where "r1 = Inr u" "r2 = Inl e" "sent @ rest = [mc]"
      | (found) u ns k where "r1 = Inr u" "r2 = Inr ns" "isl r \<longleftrightarrow> k < length ns" "k \<le> length ns"
          "sent @ rest = mc # map (\<lambda>n. (get_socket_address n port, snd mc)) (take k ns)"
      using calls all m n by (cases r1; cases r2) auto
    then show ?thesis
    proof cases
      case unsent
      then show ?thesis using sent(1) False m' by auto
    next
      case unfound
      then have "prefix sent [mc]" by (metis prefixI)
      then show ?thesis using unfound sent(1) False m' n by auto
    next
      case found
      let ?all = "mc # map (\<lambda>n. (get_socket_address n port, snd mc)) ns"
      have "prefix (sent @ rest) ?all"
        using found(5) take_is_prefix [of k "map (\<lambda>n. (get_socket_address n port, snd mc)) ns"] by (simp add: take_map)
      then have "prefix sent ?all" by (rule append_prefixD)
      moreover have "sent = ?all" if "sc_requests s = Ret (Inr ())"
        using complete [OF that] found(3-5) by auto
      moreover have "\<forall>n\<in>set ns. is_valid_ip (nb_address n)"
        using neighbor_scanner_contract.scan_valid [OF contract] n found(2) by blast
      ultimately show ?thesis using found(1,2) sent(1) False m' n by auto
    qed
  qed
qed

theorem scan_dropped_witness:
  "\<exists>s w'. scan_run (scan_start encode_packet 50000 4000 tokio_udp_sender dummy_scanner, fresh_world) (s, w') \<and>
     datagrams w' = [(socket_addr_v6 get_discovery_ip 50000 0 0,
         encode_packet (packet_from_request \<lparr>req_response_collector_port = into_u32 4000\<rparr>))]"
proof -
  let ?start = "scan_start encode_packet 50000 4000 tokio_udp_sender dummy_scanner"
  let ?mc = "(socket_addr_v6 get_discovery_ip 50000 0 0,
    encode_packet (packet_from_request \<lparr>req_response_collector_port = into_u32 4000\<rparr>))"
  obtain w' where "exec (sc_requests ?start) fresh_world = (Inr (), w')"
    by (simp add: scan_start_def send_requests_def dummy_scanner_def tokio_udp_sender_def tokio_send_multicast_def
        new_sender_socket_def call_defs exec_simps Let_def fresh_world_defs)
  from scan_run_requests [OF this, of ?start]
  have run: "scan_run (?start, fresh_world) (?start\<lparr>sc_requests := Ret (Inr ())\<rparr>, w')" by simp
  obtain w1 where m: "exec (tokio_send_multicast (fst ?mc) (snd ?mc)) fresh_world = (Inr (), w1)"
    by (simp add: tokio_send_multicast_def new_sender_socket_def call_defs exec_simps fresh_world_defs)
  have "exec (scan_neighbors dummy_scanner) w1 = (Inr [], w1)" by (simp add: dummy_scanner_def)
  moreover have "datagrams fresh_world = []" by (simp add: log_of_def fresh_world_def)
  ultimately have "datagrams w' = [?mc]" using scan_dropped [OF _ run refl] m by simp
  with run show ?thesis by blast
qed

end
