(* ===== verification/Server.thy ===== *)
theory Server
  imports For_Each Response Packet Ip_Neighbor
begin

text \<open>
  \<^verbatim>\<open>main/src/server.rs\<close>: publishing a service. The server announces itself to the
  multicast address and to every neighbour, then answers each request it receives at the
  response collector of the scanner that sent it, until the receiver fails.
\<close>

datatype serve_error =
    Serve_Invalid_Discovery_Port
  | Network_Io io_error
  | Serve_Ip_Neighbor ip_neighbor_scan_error

fun show_serve_error :: "serve_error \<Rightarrow> string" where
  "show_serve_error Serve_Invalid_Discovery_Port = ''Invalid discovery port''"
| "show_serve_error (Network_Io e) = ''Network I/O error''"
| "show_serve_error (Serve_Ip_Neighbor e) = ''Failed to scan for IP neighbors''"

section \<open>Announcing\<close>

definition announce_to_ip_neighbors ::
  "((io_error, unit) result task list \<Rightarrow> (io_error, unit list) result task) \<Rightarrow>
   u16 \<Rightarrow> ip_neighbor list \<Rightarrow> byte list \<Rightarrow> udp_sender \<Rightarrow> (io_error, unit) result task" where
  "announce_to_ip_neighbors try_join_all discovery_port neighbors data udp_sender =
     (let tasks = map (\<lambda>a. send_unicast udp_sender a data)
            (map (\<lambda>n. get_socket_address n discovery_port) neighbors)
      in task_bind (try_join_all tasks) (\<lambda>r. Ret (map_ok (\<lambda>_. ()) r)))"

definition announce ::
  "((io_error, unit) result task list \<Rightarrow> (io_error, unit list) result task) \<Rightarrow>
   (discovery_packet \<Rightarrow> byte list) \<Rightarrow>
   sockaddr_v6 \<Rightarrow> u16 \<Rightarrow> udp_sender \<Rightarrow> ip_neighbor_scanner \<Rightarrow> (serve_error, unit) result task" where
  "announce try_join_all encode discovery_address service_port udp_sender ip_neighbor_scanner =
     try_await Serve_Ip_Neighbor (scan_neighbors ip_neighbor_scanner) (\<lambda>neighbors.
     let announcement = packet_from_response \<lparr>res_service_port = into_u32 service_port\<rparr>;
         announcement_bytes = encode announcement
     in try_await Network_Io (send_multicast udp_sender discovery_address announcement_bytes) (\<lambda>_.
        try_await Network_Io
          (announce_to_ip_neighbors try_join_all (sa_port discovery_address) neighbors
             announcement_bytes udp_sender) (\<lambda>_.
        Ret (Inr ()))))"

section \<open>Answering requests\<close>

definition get_response_collector_address :: "sockaddr_v6 \<Rightarrow> u16 \<Rightarrow> string" where
  "get_response_collector_address packet_source_address response_collector_port =
     ''http://'' @ show_sockaddr_v6 (set_port response_collector_port packet_source_address)"

definition handle_packet ::
  "discovery_packet \<Rightarrow> sockaddr_v6 \<Rightarrow> u16 \<Rightarrow> response_sender \<Rightarrow> (anyhow_error, unit) result task" where
  "handle_packet packet remote_address service_port response_sender =
     (case unwrap_request packet of
        None \<Rightarrow> Ret (Inl (Anyhow_Message ''Not a `Request`''))
      | Some request \<Rightarrow>
          (case try_into_u16 (req_response_collector_port request) of
             None \<Rightarrow> Ret (Inl (Anyhow_Context ''Port out of range''))
           | Some response_collector_port \<Rightarrow>
               let response_collector_address =
                     get_response_collector_address remote_address response_collector_port;
                   response = \<lparr>res_service_port = into_u32 service_port\<rparr>
               in response_sender response response_collector_address))"

text \<open>
  The closure \<^verbatim>\<open>handle\<close>: \<^verbatim>\<open>inspect_err\<close> logs the error, \<^verbatim>\<open>or_else\<close> replaces it with
  success.
\<close>

definition serve_handler ::
  "response_sender \<Rightarrow> u16 \<Rightarrow> discovery_packet \<times> sockaddr_v6 \<Rightarrow> (io_error, unit) result task" where
  "serve_handler response_sender service_port = (\<lambda>(request, remote_address).
     task_bind (handle_packet request remote_address service_port response_sender) (\<lambda>r.
     case r of Inr u \<Rightarrow> Ret (Inr u) | Inl _ \<Rightarrow> Ret (Inr ())))"

section \<open>Serving\<close>

text \<open>
  The state of \<^verbatim>\<open>serve_internal\<close>: announcing, in the receiving loop, or returned.
\<close>

datatype serve_state =
    Serve_Setup "(serve_error, unit) result task"
  | Serve_Loop "io_error for_each"
  | Serve_Exited "(serve_error, unit) result"

text \<open>The guard and the announcement, up to the first \<^verbatim>\<open>.await?\<close> of the function.\<close>

definition serve_setup ::
  "((io_error, unit) result task list \<Rightarrow> (io_error, unit list) result task) \<Rightarrow>
   (discovery_packet \<Rightarrow> byte list) \<Rightarrow>
   u16 \<Rightarrow> u16 \<Rightarrow> udp_sender \<Rightarrow> ip_neighbor_scanner \<Rightarrow> (serve_error, unit) result task" where
  "serve_setup try_join_all encode discovery_port service_port udp_sender ip_neighbor_scanner =
     (if discovery_port = 0 then Ret (Inl Serve_Invalid_Discovery_Port)
      else
        let discovery_ip = get_discovery_ip;
            multicast_address = socket_addr_v6 discovery_ip discovery_port 0 0
        in announce try_join_all encode multicast_address service_port udp_sender ip_neighbor_scanner)"

definition serve_internal ::
  "((io_error, unit) result task list \<Rightarrow> (io_error, unit list) result task) \<Rightarrow>
   (discovery_packet \<Rightarrow> byte list) \<Rightarrow>
   u16 \<Rightarrow> u16 \<Rightarrow> udp_sender \<Rightarrow> ip_neighbor_scanner \<Rightarrow> serve_state" where
  "serve_internal try_join_all encode discovery_port service_port udp_sender ip_neighbor_scanner =
     Serve_Setup (serve_setup try_join_all encode discovery_port service_port udp_sender ip_neighbor_scanner)"

text \<open>
  The public \<^verbatim>\<open>serve\<close>: the scanner of neighbours is found first, being an argument of the
  call.
\<close>

definition serve ::
  "((io_error, unit) result task list \<Rightarrow> (io_error, unit list) result task) \<Rightarrow>
   (discovery_packet \<Rightarrow> byte list) \<Rightarrow>
   (byte list \<Rightarrow> (csv_error, net_neighbor) result list) \<Rightarrow>
   (byte list \<Rightarrow> (csv_error, linux_neighbor) result list) \<Rightarrow>
   (byte list \<Rightarrow> (json_error, link list) result) \<Rightarrow> u16 \<Rightarrow> u16 \<Rightarrow> serve_state" where
  "serve try_join_all encode windows_rows linux_rows json_links discovery_port service_port =
     Serve_Setup
       (task_bind (find_ip_neighbor_scanner windows_rows linux_rows json_links) (\<lambda>ip_neighbor_scanner.
        serve_setup try_join_all encode discovery_port service_port tokio_udp_sender ip_neighbor_scanner))"

text \<open>
  Its steps: the announcement runs to its end, an error returns early, success enters the loop
  over the packets received, and what the loop returns is returned with the error converted.
\<close>

inductive serve_step ::
  "(discovery_packet \<times> sockaddr_v6 \<Rightarrow> (io_error, unit) result task) \<Rightarrow> serve_state \<times> world \<Rightarrow>
   (io_error, discovery_packet \<times> sockaddr_v6) stream_event option \<Rightarrow> serve_state \<times> world \<Rightarrow> bool"
  for handle where
  announcing: "f w = (t, w') \<Longrightarrow>
    serve_step handle (Serve_Setup (Act f), w) None (Serve_Setup t, w')"
| announce_failed: "serve_step handle (Serve_Setup (Ret (Inl e)), w) None (Serve_Exited (Inl e), w)"
| announced: "serve_step handle (Serve_Setup (Ret (Inr u)), w) None (Serve_Loop (Running False []), w)"
| loop: "fec_step handle (s, w) ev (s', w') \<Longrightarrow>
    serve_step handle (Serve_Loop s, w) ev (Serve_Loop s', w')"
| returned: "serve_step handle (Serve_Loop (Returned r), w) None
    (Serve_Exited (map_err Network_Io r), w)"

inductive serve_run ::
  "(discovery_packet \<times> sockaddr_v6 \<Rightarrow> (io_error, unit) result task) \<Rightarrow> serve_state \<times> world \<Rightarrow>
   (io_error, discovery_packet \<times> sockaddr_v6) stream_event list \<Rightarrow> serve_state \<times> world \<Rightarrow> bool"
  for handle c where
  start: "serve_run handle c [] c"
| silent: "serve_run handle c evs c' \<Longrightarrow> serve_step handle c' None c'' \<Longrightarrow> serve_run handle c evs c''"
| event: "serve_run handle c evs c' \<Longrightarrow> serve_step handle c' (Some ev) c'' \<Longrightarrow>
    serve_run handle c (evs @ [ev]) c''"

inductive_cases serve_step_SetupE: "serve_step handle (Serve_Setup t, w) ev c"
inductive_cases serve_step_LoopE: "serve_step handle (Serve_Loop s, w) ev c"
inductive_simps serve_step_Exited [simp]: "serve_step handle (Serve_Exited r, w) ev c"

section \<open>What is announced\<close>

context udp_sender_contract
begin

lemma exec_announce_to_ip_neighbors:
  assumes join: "try_join_all_contract join_all"
    and run: "exec (announce_to_ip_neighbors join_all port neighbors data sender) w = (r, w')"
  shows "\<exists>zs. datagrams w' = datagrams w @ zs \<and>
    mset zs \<subseteq># mset (map (\<lambda>n. (get_socket_address n port, data)) neighbors) \<and>
    (\<not> isl r \<longrightarrow> mset zs = mset (map (\<lambda>n. (get_socket_address n port, data)) neighbors))"
proof -
  let ?send = "\<lambda>n. send_unicast sender (get_socket_address n port) data"
  obtain r1 where r1: "exec (join_all (map ?send neighbors)) w = (r1, w')" and "isl r1 \<longleftrightarrow> isl r"
    using run by (cases "exec (join_all (map ?send neighbors)) w")
      (auto simp: announce_to_ip_neighbors_def exec_simps map_ok_def o_def split: sum.split)
  from try_join_all_contract.join_all_emits [OF join r1, of sent_datagram "\<lambda>n. (get_socket_address n port, data)"]
  show ?thesis using unicast_once \<open>isl r1 \<longleftrightarrow> isl r\<close> by auto
qed

end

lemma exec_announce:
  assumes "udp_sender_contract sender" and "neighbor_scanner_contract nbs"
    and "try_join_all_contract join_all"
    and "exec (announce join_all encode da service_port sender nbs) w = (r, w')"
    and "data = encode (packet_from_response \<lparr>res_service_port = into_u32 service_port\<rparr>)"
  shows "(\<exists>e. r = Inl (Serve_Ip_Neighbor e) \<and> datagrams w' = datagrams w) \<or>
    (\<exists>e. r = Inl (Network_Io e) \<and> datagrams w' = datagrams w) \<or>
    (\<exists>ns w1 zs. exec (scan_neighbors nbs) w = (Inr ns, w1) \<and> datagrams w' = datagrams w @ (da, data) # zs \<and>
       mset zs \<subseteq># mset (map (\<lambda>n. (get_socket_address n (sa_port da), data)) ns) \<and>
       (isl r \<or> mset zs = mset (map (\<lambda>n. (get_socket_address n (sa_port da), data)) ns)))"
proof -
  obtain r1 w1 where s: "exec (scan_neighbors nbs) w = (r1, w1)" by (cases "exec (scan_neighbors nbs) w")
  obtain r2 w2 where m: "exec (send_multicast sender da data) w1 = (r2, w2)"
    by (cases "exec (send_multicast sender da data) w1")
  note quiet = neighbor_scanner_contract.scan_quiet [OF assms(2) s]
  note sent = udp_sender_contract.exec_multicast [OF assms(1) m]
  consider (scan) e where "r1 = Inl e" | (multicast) ns e where "r1 = Inr ns" "r2 = Inl e"
    | (neighbors) ns where "r1 = Inr ns" "r2 = Inr ()"
    by (cases r1; cases r2) auto
  then show ?thesis
  proof cases
    case scan
    then show ?thesis using assms(4) s quiet by (auto simp: announce_def exec_simps)
  next
    case multicast
    then show ?thesis using assms(4,5) s m quiet sent by (auto simp: announce_def exec_simps Let_def)
  next
    case neighbors
    let ?task = "announce_to_ip_neighbors join_all (sa_port da) ns data sender"
    obtain r3 where "exec ?task w2 = (r3, w')" and "isl r3 \<longleftrightarrow> isl r"
      using assms(4,5) s m neighbors
      by (cases "exec ?task w2") (auto simp: announce_def exec_simps Let_def split: sum.splits)
    from udp_sender_contract.exec_announce_to_ip_neighbors [OF assms(1,3) this(1)] this(2)
    show ?thesis using s quiet sent neighbors by auto
  qed
qed

section \<open>What is answered\<close>

text \<open>
  The specification: the response a packet calls for and the text of the address it goes to, which is the
  sender's with the port of its collector.
\<close>

definition answer :: "u16 \<Rightarrow> discovery_packet \<times> sockaddr_v6 \<Rightarrow> (string \<times> response) option" where
  "answer service_port = (\<lambda>(packet, remote).
     case unwrap_request packet of
       None \<Rightarrow> None
     | Some request \<Rightarrow>
         map_option (\<lambda>p. (''http://'' @ show_sockaddr_v6 (remote\<lparr>sa_port := p\<rparr>), \<lparr>res_service_port = into_u32 service_port\<rparr>))
           (try_into_u16 (req_response_collector_port request)))"

lemma collector_address_text:
  "get_response_collector_address remote p = ''http://'' @ show_sockaddr_v6 (remote\<lparr>sa_port := p\<rparr>)"
  by (simp add: get_response_collector_address_def set_port_def)

lemma handler_never_fails: "never_fails (serve_handler send port i)"
  by (cases i) (auto simp: serve_handler_def intro!: never_fails_bind never_fails.ret split: sum.split)

context response_sender_contract
begin

lemma handler_emits: "emits_upto delivered_response (answer port i) (serve_handler send port i)"
proof -
  obtain packet remote where i: "i = (packet, remote)" by (cases i)
  have ret: "(\<lambda>r. case r of Inr u \<Rightarrow> Ret (Inr u) | Inl _ \<Rightarrow> Ret (Inr ()))
      = (\<lambda>r :: (anyhow_error, unit) result. Ret (Inr () :: (io_error, unit) result))"
    by (auto split: sum.split)
  have sent: "emits_upto delivered_response (Some (a, r)) (task_bind (send r a) (\<lambda>r. Ret (Inr ())))" for a r
    using emits_once_upto [OF send_once [of a r], of "\<lambda>_. Inr ()"] by simp
  show ?thesis
    using sent
    by (auto simp: i serve_handler_def handle_packet_def answer_def ret Let_def collector_address_text
        intro: emits_upto.ret split: option.split)
qed

end

text \<open>The loop of the server, taken from the moment it starts.\<close>

lemma serve_run_loop:
  assumes "serve_run handle (Serve_Loop (Running False []), w0) evs (st, w)"
  shows "\<exists>s. fec_run handle (Running False [], w0) evs (s, w) \<and>
    (st = Serve_Loop s \<or> (\<exists>r. s = Returned r \<and> st = Serve_Exited (map_err Network_Io r)))"
  using assms
proof (induction evs "(st, w)" arbitrary: st w rule: serve_run.induct)
  case start
  show ?case by (blast intro: fec_run.start)
next
  case (silent evs c')
  obtain st1 w1 where c': "c' = (st1, w1)" by (cases c')
  obtain s where s: "fec_run handle (Running False [], w0) evs (s, w1)"
    "st1 = Serve_Loop s \<or> (\<exists>r. s = Returned r \<and> st1 = Serve_Exited (map_err Network_Io r))"
    using silent.hyps(2) [OF c'] by blast
  then have st1: "st1 = Serve_Loop s" using silent.hyps(3) c' by auto
  from silent.hyps(3) consider (step) s' where "fec_step handle (s, w1) None (s', w)" "st = Serve_Loop s'"
    | (exit) r where "s = Returned r" "st = Serve_Exited (map_err Network_Io r)" "w = w1"
    unfolding c' st1 by (auto elim: serve_step_LoopE)
  then show ?case using s(1) by cases (auto intro: fec_run.silent)
next
  case (event evs c' ev)
  obtain st1 w1 where c': "c' = (st1, w1)" by (cases c')
  obtain s where s: "fec_run handle (Running False [], w0) evs (s, w1)"
    "st1 = Serve_Loop s \<or> (\<exists>r. s = Returned r \<and> st1 = Serve_Exited (map_err Network_Io r))"
    using event.hyps(2) [OF c'] by blast
  then have st1: "st1 = Serve_Loop s" using event.hyps(3) c' by auto
  from event.hyps(3) obtain s' where "fec_step handle (s, w1) (Some ev) (s', w)" "st = Serve_Loop s'"
    unfolding c' st1 by (auto elim: serve_step_LoopE)
  then show ?case using s(1) by (auto intro: fec_run.event)
qed

text \<open>From its start, a server is announcing, has failed to announce, or is in the loop.\<close>

lemma serve_run_setup:
  assumes "serve_run handle (Serve_Setup t, w0) evs (st, w)"
  shows "(\<exists>t'. st = Serve_Setup t' \<and> evs = [] \<and> exec t' w = exec t w0) \<or>
    (\<exists>e. st = Serve_Exited (Inl e) \<and> evs = [] \<and> exec t w0 = (Inl e, w)) \<or>
    (\<exists>w1. exec t w0 = (Inr (), w1) \<and> serve_run handle (Serve_Loop (Running False []), w1) evs (st, w))"
  using assms
proof (induction evs "(st, w)" arbitrary: st w rule: serve_run.induct)
  case start
  show ?case by simp
next
  case (silent evs c')
  obtain st1 w1 where c': "c' = (st1, w1)" by (cases c')
  from silent.hyps(2) [OF c'] consider
      (announcing) t' where "st1 = Serve_Setup t'" "evs = []" "exec t' w1 = exec t w0"
    | (failed) e where "st1 = Serve_Exited (Inl e)"
    | (loop) w2 where "exec t w0 = (Inr (), w2)"
        "serve_run handle (Serve_Loop (Running False []), w2) evs (st1, w1)"
    by blast
  then show ?case
  proof cases
    case announcing
    from silent.hyps(3) announcing(1,2) announcing(3) [symmetric] show ?thesis
      by (auto simp: c' exec_Act elim!: serve_step_SetupE intro: serve_run.start)
  next
    case failed
    with silent.hyps(3) show ?thesis by (simp add: c')
  next
    case loop
    then show ?thesis using serve_run.silent [OF loop(2)] silent.hyps(3) by (auto simp: c')
  qed
next
  case (event evs c' ev)
  obtain st1 w1 where c': "c' = (st1, w1)" by (cases c')
  from event.hyps(2) [OF c'] consider
      (announcing) t' where "st1 = Serve_Setup t'"
    | (failed) e where "st1 = Serve_Exited (Inl e)"
    | (loop) w2 where "exec t w0 = (Inr (), w2)"
        "serve_run handle (Serve_Loop (Running False []), w2) evs (st1, w1)"
    by blast
  then show ?case
  proof cases
    case announcing
    with event.hyps(3) show ?thesis by (auto simp: c' elim!: serve_step_SetupE)
  next
    case failed
    with event.hyps(3) show ?thesis by (simp add: c')
  next
    case loop
    then show ?thesis using serve_run.event [OF loop(2)] event.hyps(3) by (auto simp: c')
  qed
qed

text \<open>The loop of the server follows the runs of \<open>fec_run\<close>.\<close>

lemma serve_run_of_fec_run:
  "fec_run handle (s, w) evs c \<Longrightarrow> serve_run handle c0 evs0 (Serve_Loop s, w) \<Longrightarrow>
     serve_run handle c0 (evs0 @ evs) (case c of (s', w') \<Rightarrow> (Serve_Loop s', w'))"
proof (induction rule: fec_run.induct)
  case start
  then show ?case by simp
next
  case (silent evs c' c'')
  then show ?case
    by (auto split: prod.splits intro: serve_run.silent serve_step.loop)
next
  case (event evs c' ev c'')
  then show ?case
    using serve_run.event [of handle c0 "evs0 @ evs" "case c' of (s', w') \<Rightarrow> (Serve_Loop s', w')" ev]
    by (auto split: prod.splits intro: serve_step.loop)
qed

lemma exec_serve_handler:
  "exec (serve_handler send service_port (packet, remote)) w =
     (case answer service_port (packet, remote) of
        None \<Rightarrow> (Inr (), w)
      | Some (collector, res) \<Rightarrow> (Inr (), snd (exec (send res collector) w)))"
proof -
  have "(\<lambda>r. case r of Inr u \<Rightarrow> Ret (Inr u) | Inl _ \<Rightarrow> Ret (Inr ()))
      = (\<lambda>r :: (anyhow_error, unit) result. Ret (Inr () :: (io_error, unit) result))"
    by (auto split: sum.split)
  then show ?thesis
    by (auto simp: serve_handler_def handle_packet_def answer_def exec_bind Let_def collector_address_text
        split: option.split prod.split)
qed

lemma serve_run_exec_setup:
  "serve_run handle c evs (Serve_Setup t, w) \<Longrightarrow> exec t w = (r, w') \<Longrightarrow>
     serve_run handle c evs (Serve_Setup (Ret r), w')"
proof (induction t arbitrary: w rule: task_induct)
  case (Act f)
  obtain t w1 where f: "f w = (t, w1)" by (cases "f w")
  have "serve_run handle c evs (Serve_Setup t, w1)"
    by (rule serve_run.silent [OF Act.prems(1) serve_step.announcing [of f w t w1, OF f]])
  moreover have "exec t w1 = (r, w')" using Act.prems(2) f by (simp add: exec_Act)
  ultimately show ?case by (rule Act.IH [OF f])
qed auto

lemma fec_run_items:
  "fec_run handle c evs (Running False pool, w) \<Longrightarrow>
     fec_run handle c (evs @ map (\<lambda>i. Yield (Inr i)) is) (Running False (pool @ map handle is), w)"
proof (induction "is" arbitrary: evs pool)
  case (Cons i "is")
  have "fec_run handle c (evs @ [Yield (Inr i)]) (Running False (pool @ [handle i]), w)"
    by (rule fec_run.event [OF Cons.prems fec_step.item])
  from Cons.IH [OF this] show ?case by simp
qed simp

section \<open>Properties\<close>

text \<open>
  C14: A server that announces its service successfully has sent the same
  announcement, carrying its port, to the multicast address first and then exactly once to every neighbour,
  whatever the interleaving of the sends; when it fails, nothing was sent beyond that.
\<close>

theorem announcement_reaches_everyone:
  assumes "udp_sender_contract sender" and "neighbor_scanner_contract nbs"
    and "try_join_all_contract join_all"
    and "exec (announce join_all encode da service_port sender nbs) w = (r, w')"
    and "data = encode (packet_from_response \<lparr>res_service_port = into_u32 service_port\<rparr>)"
  shows "(\<exists>e. r = Inl (Serve_Ip_Neighbor e) \<and> datagrams w' = datagrams w) \<or>
    (\<exists>e. r = Inl (Network_Io e) \<and> datagrams w' = datagrams w) \<or>
    (\<exists>ns w1 zs. exec (scan_neighbors nbs) w = (Inr ns, w1) \<and> datagrams w' = datagrams w @ (da, data) # zs \<and>
       mset zs \<subseteq># mset (map (\<lambda>n. (get_socket_address n (sa_port da), data)) ns) \<and>
       (isl r \<or> mset zs = mset (map (\<lambda>n. (get_socket_address n (sa_port da), data)) ns)))"
  using assms by (rule exec_announce)

theorem announcement_reaches_everyone_witness:
  "mset (datagrams (snd (exec (announce join_in_order encode_packet (set_port 50000 wildcard_addr) 80
     tokio_udp_sender example_scanner) fresh_world))) =
   {# (set_port 50000 wildcard_addr, encode_packet (packet_from_response \<lparr>res_service_port = into_u32 80\<rparr>)),
      (socket_addr_v6 (Ipv6_Addr 0xFE80 0 0 0 0 0 0 1) 50000 0 7,
        encode_packet (packet_from_response \<lparr>res_service_port = into_u32 80\<rparr>)) #}"
proof -
  let ?da = "set_port 50000 wildcard_addr"
  obtain w' where w': "exec (announce join_in_order encode_packet ?da 80 tokio_udp_sender example_scanner)
      fresh_world = (Inr (), w')"
    by (simp add: announce_def announce_to_ip_neighbors_def tokio_udp_sender_def tokio_send_multicast_def
        tokio_send_unicast_def new_sender_socket_def example_scanner_def example_neighbors_def call_defs
        exec_simps Let_def map_ok_def fresh_world_defs)
  have "scan_neighbors example_scanner = Ret (Inr example_neighbors)" by (simp add: example_scanner_def)
  moreover have "datagrams fresh_world = []" by (simp add: log_of_def fresh_world_def)
  ultimately show ?thesis
    using announcement_reaches_everyone [OF tokio.udp_sender_contract_axioms example_scanner_contract
        in_order.try_join_all_contract_axioms w' refl] w'
    by (auto simp: example_neighbors_def get_socket_address_def is_link_local_segment)
qed

text \<open>
  A server told to use discovery port 0 does nothing: it receives no packet, leaves the
  world as it was, and can only return that the port is invalid.
\<close>

theorem serve_port_zero:
  assumes "serve_run handle (serve_internal join_all encode 0 service_port sender nbs, w0) evs (st, w)"
  shows "evs = [] \<and> w = w0 \<and>
    (st = Serve_Setup (Ret (Inl Serve_Invalid_Discovery_Port)) \<or>
     st = Serve_Exited (Inl Serve_Invalid_Discovery_Port))"
  using assms
proof (induction evs "(st, w)" arbitrary: st w rule: serve_run.induct)
  case (silent evs c')
  then show ?case by (cases c') (auto simp: elim: serve_step_SetupE)
next
  case (event evs c' ev)
  then show ?case by (cases c') (auto elim: serve_step_SetupE)
qed (simp add: serve_internal_def serve_setup_def)

theorem serve_port_zero_witness:
  "serve_run (\<lambda>_. Ret (Inr ())) (serve_internal join_in_order encode_packet 0 80 tokio_udp_sender dummy_scanner,
      fresh_world) [] (Serve_Exited (Inl Serve_Invalid_Discovery_Port), fresh_world) \<and>
   Serve_Exited (Inl Serve_Invalid_Discovery_Port) \<noteq> Serve_Exited (Inr ())"
proof
  have start: "serve_internal join_in_order encode_packet 0 80 tokio_udp_sender dummy_scanner
      = Serve_Setup (Ret (Inl Serve_Invalid_Discovery_Port))"
    by (simp add: serve_internal_def serve_setup_def)
  show run: "serve_run (\<lambda>_. Ret (Inr ())) (serve_internal join_in_order encode_packet 0 80 tokio_udp_sender
      dummy_scanner, fresh_world) [] (Serve_Exited (Inl Serve_Invalid_Discovery_Port), fresh_world)"
    unfolding start by (rule serve_run.silent [OF serve_run.start serve_step.announce_failed])
  show "Serve_Exited (Inl Serve_Invalid_Discovery_Port) \<noteq> Serve_Exited (Inr ())"
    using serve_port_zero [OF run] by simp
qed

text \<open>
  C12: A server returns only because announcing failed, with that error, or, once it has announced,
  because of the packet receiver: with the receiver's error, or successfully when the receiver's stream has
  ended. No packet, however malformed, and no failure to answer makes it return.
\<close>

theorem serve_ends:
  assumes "serve_run (serve_handler send service_port)
    (serve_internal join_all encode port service_port sender nbs, w0) evs (Serve_Exited r, w)"
    and "starting = serve_setup join_all encode port service_port sender nbs"
  shows "(\<exists>e. evs = [] \<and> r = Inl e \<and> exec starting w0 = (Inl e, w)) \<or>
    (\<exists>w1. exec starting w0 = (Inr (), w1) \<and>
       ((\<exists>is e. evs = map (\<lambda>i. Yield (Inr i)) is @ [Yield (Inl e)] \<and> r = Inl (Network_Io e)) \<or>
        (\<exists>is. evs = map (\<lambda>i. Yield (Inr i)) is @ [Stream_End] \<and> r = Inr ())))"
proof -
  from assms have "serve_run (serve_handler send service_port) (Serve_Setup starting, w0) evs (Serve_Exited r, w)"
    by (simp add: serve_internal_def)
  from serve_run_setup [OF this] consider
      (failed) e where "r = Inl e" "evs = []" "exec starting w0 = (Inl e, w)"
    | (loop) w1 where "exec starting w0 = (Inr (), w1)"
        "serve_run (serve_handler send service_port) (Serve_Loop (Running False []), w1) evs (Serve_Exited r, w)"
    by auto
  then show ?thesis
  proof cases
    case loop
    obtain v where v: "fec_run (serve_handler send service_port) (Running False [], w1) evs (Returned v, w)"
      "r = map_err Network_Io v"
      using serve_run_loop [OF loop(2)] by auto
    show ?thesis
      using fec_run_reason [OF v(1) handler_never_fails] v(2) loop(1)
      by (cases v) (auto simp: loop_reason_def map_err_def)
  qed simp
qed

theorem serve_ends_witness:
  "\<exists>w. serve_run (serve_handler grpc_send 80)
      (serve_internal join_in_order encode_packet 50000 80 tokio_udp_sender dummy_scanner, fresh_world)
      [Yield (Inr (packet_from_response \<lparr>res_service_port = 9\<rparr>, wildcard_addr)), Yield (Inl (Io_Error 5))]
      (Serve_Exited (Inl (Network_Io (Io_Error 5))), w) \<and>
    exec (serve_setup join_in_order encode_packet 50000 80 tokio_udp_sender dummy_scanner) fresh_world \<noteq> (Inl Serve_Invalid_Discovery_Port, w)"
proof -
  let ?starting = "serve_setup join_in_order encode_packet 50000 80 tokio_udp_sender dummy_scanner"
  let ?start = "(serve_internal join_in_order encode_packet 50000 80 tokio_udp_sender dummy_scanner, fresh_world)"
  let ?i = "(packet_from_response \<lparr>res_service_port = 9\<rparr>, wildcard_addr)"
  obtain w1 where w1: "exec ?starting fresh_world = (Inr (), w1)"
    by (simp add: serve_setup_def announce_def announce_to_ip_neighbors_def tokio_udp_sender_def
        tokio_send_multicast_def new_sender_socket_def dummy_scanner_def call_defs exec_simps Let_def
        map_ok_def fresh_world_defs)
  have "serve_run (serve_handler grpc_send 80) ?start [] (Serve_Setup ?starting, fresh_world)"
    by (simp add: serve_internal_def serve_run.start)
  from serve_run.silent [OF serve_run_exec_setup [OF this w1] serve_step.announced]
  have "serve_run (serve_handler grpc_send 80) ?start [] (Serve_Loop (Running False []), w1)" .
  from serve_run.event [OF serve_run.event [OF this serve_step.loop [OF fec_step.item]]
      serve_step.loop [OF fec_step.item_err], of ?i "Io_Error 5"]
  have "serve_run (serve_handler grpc_send 80) ?start [Yield (Inr ?i), Yield (Inl (Io_Error 5))]
      (Serve_Loop (Returned (Inl (Io_Error 5))), w1)" by simp
  from serve_run.silent [OF this serve_step.returned]
  have run: "serve_run (serve_handler grpc_send 80) ?start [Yield (Inr ?i), Yield (Inl (Io_Error 5))]
      (Serve_Exited (Inl (Network_Io (Io_Error 5))), w1)" by (simp add: map_err_def)
  with serve_ends [OF run refl] show ?thesis by (intro exI [of _ w1]) auto
qed

text \<open>
  C13: Whatever the interleaving of its handlers with each other and with the arrival of
  packets, a server sends at most one response for each request it received, to the collector that request
  names, carrying its own port; other packets are never answered.
\<close>

theorem answers_bounded:
  assumes "response_sender_contract send"
    and "serve_run (serve_handler send service_port) (Serve_Loop (Running False []), w0) evs (st, w)"
  shows "\<exists>zs. responses w = responses w0 @ zs \<and>
    mset zs \<subseteq># mset (List.map_filter (answer service_port) (yields evs))"
proof -
  obtain s where "fec_run (serve_handler send service_port) (Running False [], w0) evs (s, w)"
    using serve_run_loop [OF assms(2)] by blast
  then show ?thesis
    by (rule fec_run_log) (rule response_sender_contract.handler_emits [OF assms(1)])
qed

theorem answers_bounded_witness:
  "\<exists>w zs. serve_run (serve_handler grpc_send 80) (Serve_Loop (Running False []), fresh_world)
       [Yield (Inr (packet_from_response \<lparr>res_service_port = 9\<rparr>, wildcard_addr))] (Serve_Loop (Running False
       [serve_handler grpc_send 80 (packet_from_response \<lparr>res_service_port = 9\<rparr>, wildcard_addr)]), w) \<and>
     responses w = zs \<and> mset zs \<subseteq># {#}"
proof -
  let ?i = "(packet_from_response \<lparr>res_service_port = 9\<rparr>, wildcard_addr)"
  have run: "serve_run (serve_handler grpc_send 80) (Serve_Loop (Running False []), fresh_world)
      ([] @ [Yield (Inr ?i)]) (Serve_Loop (Running False ([] @ [serve_handler grpc_send 80 ?i])), fresh_world)"
    by (rule serve_run.event [OF serve_run.start serve_step.loop [OF fec_step.item]])
  have none: "answer 80 ?i = None" and start: "responses fresh_world = []"
    by (simp_all add: answer_def log_of_def fresh_world_def)
  show ?thesis
    using answers_bounded [OF grpc.response_sender_contract_axioms run] run none start
    by (auto simp: List.map_filter_simps)
qed

text \<open>
  C20: From every state its loop can reach while the receiver goes on, a server can receive any
  further packets and finish the handlers of all of them: none blocks it or makes it return.
\<close>

theorem serve_goes_on:
  assumes "serve_run (serve_handler send service_port) (Serve_Loop (Running False []), w0) evs
    (Serve_Loop (Running False pool), w)"
  shows "\<exists>w'. serve_run (serve_handler send service_port) (Serve_Loop (Running False []), w0)
    (evs @ map (\<lambda>i. Yield (Inr i)) is) (Serve_Loop (Running False []), w')"
proof -
  let ?h = "serve_handler send service_port"
  have run: "fec_run ?h (Running False [], w0) evs (Running False pool, w)"
    using serve_run_loop [OF assms] by auto
  have "\<forall>t\<in>set pool. never_fails t"
    using fec_run_reason [OF run handler_never_fails] by (simp add: loop_reason_def)
  then have "\<forall>t\<in>set (pool @ map ?h is). never_fails t" using handler_never_fails by auto
  from fec_run_drain [OF this] obtain w' where
    "fec_run ?h (Running False (pool @ map ?h is), w) [] (Running False [], w')" by blast
  from fec_run_trans [OF this fec_run_items [OF run]]
  have "fec_run ?h (Running False [], w0) (evs @ map (\<lambda>i. Yield (Inr i)) is) (Running False [], w')"
    by simp
  from serve_run_of_fec_run [OF this serve_run.start] show ?thesis by auto
qed

theorem serve_goes_on_witness:
  "\<exists>w'. serve_run (serve_handler grpc_send 80) (Serve_Loop (Running False []), fresh_world)
     [Yield (Inr (packet_from_request \<lparr>req_response_collector_port = 7\<rparr>, wildcard_addr))]
     (Serve_Loop (Running False []), w')"
  using serve_goes_on [OF serve_run.start, of grpc_send 80 fresh_world
      "[(packet_from_request \<lparr>req_response_collector_port = 7\<rparr>, wildcard_addr)]"]
  by simp

text \<open>
  C21: What a server does with a packet. A request that names a port of 16 bits makes it send its
  own port, once, to that port of the address the request came from, and whether that works is ignored; any
  other packet, such as an announcement or a request that names a larger port, has no effect at all. Handling
  never fails.
\<close>

theorem request_handled:
  "exec (serve_handler send service_port
       (packet_from_request \<lparr>req_response_collector_port = into_u32 p\<rparr>, remote)) w =
     (Inr (), snd (exec (send \<lparr>res_service_port = into_u32 service_port\<rparr>
        (''http://'' @ show_sockaddr_v6 (remote\<lparr>sa_port := p\<rparr>))) w)) \<and>
   ((\<nexists>p. packet = packet_from_request \<lparr>req_response_collector_port = into_u32 p\<rparr>) \<longrightarrow>
      exec (serve_handler send service_port (packet, remote)) w = (Inr (), w))"
proof (intro conjI impI)
  assume other: "\<nexists>p. packet = packet_from_request \<lparr>req_response_collector_port = into_u32 p\<rparr>"
  have "answer service_port (packet, remote) = None"
  proof (cases "unwrap_request packet")
    case (Some req)
    then have "packet = packet_from_request req" by (simp add: unwrap_request_Some_iff)
    with other have "try_into_u16 (req_response_collector_port req) = None"
      by (cases req; cases "try_into_u16 (req_response_collector_port req)") (auto simp: try_into_u16_Some_iff)
    then show ?thesis using Some by (simp add: answer_def)
  qed (simp add: answer_def)
  then show "exec (serve_handler send service_port (packet, remote)) w = (Inr (), w)"
    by (simp add: exec_serve_handler)
qed (simp add: exec_serve_handler answer_def)

theorem request_handled_witness:
  "exec (serve_handler grpc_send 80 (packet_from_response \<lparr>res_service_port = 9\<rparr>, wildcard_addr)) fresh_world
     = (Inr (), fresh_world)"
proof -
  have "\<nexists>p. packet_from_response \<lparr>res_service_port = 9\<rparr>
      = packet_from_request \<lparr>req_response_collector_port = into_u32 p\<rparr>"
    by (simp add: packet_from_request_def packet_from_response_def)
  with request_handled show ?thesis by blast
qed

text \<open>
  C27: The text a server connects to is \<^verbatim>\<open>http://\<close> and a socket address that reads
  back as the sender's address with the collector's port, scope included and flow label dropped.
\<close>

theorem collector_address_roundtrip:
  "take 7 (get_response_collector_address remote port) = ''http://'' \<and>
   parse_sockaddr_v6 (drop 7 (get_response_collector_address remote port))
     = Some (remote\<lparr>sa_port := port, sa_flowinfo := 0\<rparr>)"
  by (simp add: get_response_collector_address_def parse_show_sockaddr_v6 set_port_def)

text \<open>
  C11: The public server, with the scanner of neighbours it finds on the system: unless
  scanning or the multicast fails, it sends its port to the discovery address and then, in some order, at
  most once to every neighbour found; it goes on to serve only if every one of these was sent.
\<close>

theorem serve_publishes:
  assumes "try_join_all_contract join_all" and "port \<noteq> 0"
    and "serve join_all encode windows_rows linux_rows json_links port service_port = Serve_Setup t"
    and "exec t w = (r, w')"
    and "data = encode (packet_from_response \<lparr>res_service_port = into_u32 service_port\<rparr>)"
  shows "\<exists>nbs w0. exec (find_ip_neighbor_scanner windows_rows linux_rows json_links) w = (nbs, w0) \<and>
    ((isl r \<and> datagrams w' = datagrams w) \<or>
     (\<exists>ns w1 zs. exec (scan_neighbors nbs) w0 = (Inr ns, w1) \<and>
        datagrams w' = datagrams w @ (socket_addr_v6 get_discovery_ip port 0 0, data) # zs \<and>
        mset zs \<subseteq># mset (map (\<lambda>n. (get_socket_address n port, data)) ns) \<and>
        (isl r \<or> mset zs = mset (map (\<lambda>n. (get_socket_address n port, data)) ns))))"
proof -
  obtain nbs w0 where find: "exec (find_ip_neighbor_scanner windows_rows linux_rows json_links) w = (nbs, w0)"
    by (cases "exec (find_ip_neighbor_scanner windows_rows linux_rows json_links) w")
  note contract = found_scanner [OF find]
  have "exec (announce join_all encode (socket_addr_v6 get_discovery_ip port 0 0) service_port
      tokio_udp_sender nbs) w0 = (r, w')"
    using assms(2-4) find by (auto simp: serve_def serve_setup_def exec_simps Let_def)
  from exec_announce [OF tokio.udp_sender_contract_axioms conjunct1 [OF contract] assms(1) this assms(5)]
  show ?thesis using find contract by auto
qed

theorem serve_publishes_witness:
  "\<exists>t w' nbs w0. serve join_in_order encode_packet (\<lambda>_. [Inr example_net_neighbor]) (\<lambda>_. []) (\<lambda>_. Inr []) 50000 80
      = Serve_Setup t \<and> exec t fresh_world = (Inr (), w') \<and>
    exec (find_ip_neighbor_scanner (\<lambda>_. [Inr example_net_neighbor]) (\<lambda>_. []) (\<lambda>_. Inr [])) fresh_world = (nbs, w0) \<and>
    (\<exists>ns w1 zs. exec (scan_neighbors nbs) w0 = (Inr ns, w1) \<and>
       datagrams w' = (socket_addr_v6 get_discovery_ip 50000 0 0,
         encode_packet (packet_from_response \<lparr>res_service_port = into_u32 80\<rparr>)) # zs \<and>
       mset zs = mset (map (\<lambda>n. (get_socket_address n 50000,
         encode_packet (packet_from_response \<lparr>res_service_port = into_u32 80\<rparr>))) ns))"
proof -
  let ?rows = "\<lambda>_ :: byte list. [Inr example_net_neighbor :: (csv_error, net_neighbor) result]"
  obtain t where t: "serve join_in_order encode_packet ?rows (\<lambda>_. []) (\<lambda>_. Inr []) 50000 80 = Serve_Setup t"
    by (simp add: serve_def)
  have "is_valid_ip (nn_ip_address example_net_neighbor)"
    by (simp add: example_net_neighbor_def is_valid_ip_def is_loopback_def is_unspecified_def
      localhost_def unspecified_def is_multicast_def)
  then have parsed: "windows_parse_output ?rows out = Inr [ip_neighbor_from example_net_neighbor]" for out
    by (simp add: windows_parse_output_Inr_iff example_net_neighbor_def exI [of _ "[example_net_neighbor]"])
  obtain w' where w': "exec t fresh_world = (Inr (), w')"
    using t [unfolded serve_def, simplified, symmetric]
    by (simp add: serve_setup_def find_ip_neighbor_scanner_def select_scanner_def windows_scanner_def
        windows_scan_def probe_def eval_def read_stdout_def parsed announce_def announce_to_ip_neighbors_def
        tokio_udp_sender_def tokio_send_multicast_def tokio_send_unicast_def new_sender_socket_def call_defs
        exec_simps Let_def map_ok_def map_err_def fresh_world_defs)
  have "datagrams fresh_world = []" by (simp add: log_of_def fresh_world_def)
  with serve_publishes [OF in_order.try_join_all_contract_axioms _ t w' refl] t w'
  show ?thesis by auto
qed

end
