(* ===== verification/Server_Spec.thy ===== *)
theory Server_Spec
  imports Server
begin

text \<open>
  What a server promises once it has announced itself, as an abstract machine, and the refinement: every
  run of the detailed server, with its handlers and their suspension points, is a run of that machine.
\<close>

section \<open>The abstract publisher\<close>

text \<open>
  A publisher owes answers to the requests it has received. It may give each one or give it up; when
  its packets end it settles what it owes, and when they fail it stops at once.
\<close>

datatype publisher =
    Publishing bool "(string \<times> response) multiset" \<comment> \<open>whether the packets have ended, the answers owed\<close>
  | Stopped "(serve_error, unit) result"

inductive publisher_step ::
  "u16 \<Rightarrow> publisher \<times> (string \<times> response) list \<Rightarrow>
   (io_error, discovery_packet \<times> sockaddr_v6) stream_event option \<Rightarrow>
   publisher \<times> (string \<times> response) list \<Rightarrow> bool" for service_port where
  request: "answer service_port i = Some x \<Longrightarrow>
    publisher_step service_port (Publishing False M, rs) (Some (Yield (Inr i)))
      (Publishing False (add_mset x M), rs)"
| other_packet: "answer service_port i = None \<Longrightarrow>
    publisher_step service_port (Publishing False M, rs) (Some (Yield (Inr i))) (Publishing False M, rs)"
| respond: "publisher_step service_port (Publishing b (add_mset x M), rs) None (Publishing b M, rs @ [x])"
| give_up: "publisher_step service_port (Publishing b (add_mset x M), rs) None (Publishing b M, rs)"
| packets_ended: "publisher_step service_port (Publishing False M, rs) (Some Stream_End) (Publishing True M, rs)"
| packets_failed: "publisher_step service_port (Publishing False M, rs) (Some (Yield (Inl e)))
    (Stopped (Inl (Network_Io e)), rs)"
| settled: "publisher_step service_port (Publishing True {#}, rs) None (Stopped (Inr ()), rs)"

inductive publisher_run ::
  "u16 \<Rightarrow> publisher \<times> (string \<times> response) list \<Rightarrow>
   (io_error, discovery_packet \<times> sockaddr_v6) stream_event list \<Rightarrow>
   publisher \<times> (string \<times> response) list \<Rightarrow> bool" for service_port a where
  start: "publisher_run service_port a [] a"
| silent: "publisher_run service_port a evs a' \<Longrightarrow> publisher_step service_port a' None a'' \<Longrightarrow>
    publisher_run service_port a evs a''"
| event: "publisher_run service_port a evs a' \<Longrightarrow> publisher_step service_port a' (Some ev) a'' \<Longrightarrow>
    publisher_run service_port a (evs @ [ev]) a''"

section \<open>Refinement\<close>

text \<open>
  The handlers at work stand for the answers owed: each may still send the one it has been given, or has
  none left to send.
\<close>

inductive publishes ::
  "(string \<times> response) list \<Rightarrow> serve_state \<times> world \<Rightarrow> publisher \<times> (string \<times> response) list \<Rightarrow> bool"
  for before where
  publishing: "list_all2 (emits_upto delivered_response) xs pool \<Longrightarrow> \<forall>t\<in>set pool. never_fails t \<Longrightarrow>
    responses w = before @ rs \<Longrightarrow>
    publishes before (Serve_Loop (Running b pool), w) (Publishing b (mset (List.map_filter id xs)), rs)"
| returned: "responses w = before @ rs \<Longrightarrow>
    publishes before (Serve_Loop (Returned r), w) (Stopped (map_err Network_Io r), rs)"
| exited: "responses w = before @ rs \<Longrightarrow> publishes before (Serve_Exited r, w) (Stopped r, rs)"

inductive_cases publishes_SetupE: "publishes before (Serve_Setup t, w) a"

lemma publishes_LoopE:
  assumes "publishes before (Serve_Loop s, w) a"
  obtains (publishing) b pool xs rs where "s = Running b pool"
      "a = (Publishing b (mset (List.map_filter id xs)), rs)"
      "list_all2 (emits_upto delivered_response) xs pool" "\<forall>t\<in>set pool. never_fails t"
      "responses w = before @ rs"
  | (returned) r rs where "s = Returned r" "a = (Stopped (map_err Network_Io r), rs)"
      "responses w = before @ rs"
  using assms by (cases rule: publishes.cases) auto

lemma publishes_responses: "publishes before (st, w) (a, rs) \<Longrightarrow> responses w = before @ rs"
  by (cases rule: publishes.cases) auto

text \<open>A step of a handler answers, or changes nothing that can be seen.\<close>

lemma handler_step_refines:
  assumes "list_all2 (emits_upto delivered_response) xs pool" and "\<forall>t\<in>set pool. never_fails t"
    and "responses w = before @ rs" and "i < length pool" and "pool ! i = Act f" and "f w = (t, w')"
  shows "\<exists>a. (a = (Publishing b (mset (List.map_filter id xs)), rs) \<or>
      publisher_step service_port (Publishing b (mset (List.map_filter id xs)), rs) None a) \<and>
    publishes before (Serve_Loop (Running b (pool[i := t])), w') a"
proof -
  have len: "i < length xs" using assms(1,4) by (simp add: list_all2_lengthD)
  have "never_fails (Act f)" using assms(2,4,5) nth_mem by fastforce
  then have "never_fails t" using assms(6) by (rule never_fails_step)
  then have safe: "\<forall>t'\<in>set (pool[i := t]). never_fails t'"
    using assms(2) set_update_subset_insert [of pool i t] by auto
  have "emits_upto delivered_response (xs ! i) (Act f)"
    using list_all2_nthD2 [OF assms(1,4)] assms(5) by simp
  then show ?thesis
    using assms(6)
  proof (cases rule: emits_upto_step)
    case 1
    then have "list_all2 (emits_upto delivered_response) xs (pool[i := t])"
      using list_all2_update_cong [OF assms(1), of "xs ! i" t i] by simp
    then have "publishes before (Serve_Loop (Running b (pool[i := t])), w')
        (Publishing b (mset (List.map_filter id xs)), rs)"
      using safe 1(2) assms(3) by (intro publishes.publishing) simp_all
    then show ?thesis by blast
  next
    case (2 y)
    have "list_all2 (emits_upto delivered_response) (xs[i := None]) (pool[i := t])"
      using assms(1) 2(2) by (intro list_all2_update_cong)
    then have "publishes before (Serve_Loop (Running b (pool[i := t])), w')
        (Publishing b (mset (List.map_filter id (xs[i := None]))), rs @ [y])"
      using safe 2(3) assms(3) by (intro publishes.publishing) simp_all
    moreover have "publisher_step service_port (Publishing b (mset (List.map_filter id xs)), rs) None
        (Publishing b (mset (List.map_filter id (xs[i := None]))), rs @ [y])"
      unfolding mset_map_filter_update [OF len 2(1)] by (rule publisher_step.respond)
    ultimately show ?thesis by blast
  qed
qed

text \<open>A handler that has returned without sending gives its answer up.\<close>

lemma handler_done_refines:
  assumes "list_all2 (emits_upto delivered_response) xs (pool1 @ Ret (Inr ()) # pool2)"
    and "\<forall>t\<in>set (pool1 @ Ret (Inr ()) # pool2). never_fails t" and "responses w = before @ rs"
  shows "\<exists>a. (a = (Publishing b (mset (List.map_filter id xs)), rs) \<or>
      publisher_step service_port (Publishing b (mset (List.map_filter id xs)), rs) None a) \<and>
    publishes before (Serve_Loop (Running b (pool1 @ pool2)), w) a"
proof -
  obtain xs1 x xs2 where xs: "xs = xs1 @ x # xs2" "list_all2 (emits_upto delivered_response) xs1 pool1"
    "list_all2 (emits_upto delivered_response) xs2 pool2"
    using assms(1) by (auto simp: list_all2_append2 list_all2_Cons2)
  let ?a = "(Publishing b (mset (List.map_filter id (xs1 @ xs2))), rs)"
  have "publishes before (Serve_Loop (Running b (pool1 @ pool2)), w) ?a"
    using xs(2,3) assms(2,3) by (intro publishes.publishing) (auto intro: list_all2_appendI)
  moreover have "?a = (Publishing b (mset (List.map_filter id xs)), rs) \<or>
      publisher_step service_port (Publishing b (mset (List.map_filter id xs)), rs) None ?a"
    using publisher_step.give_up [of service_port b _ "mset (List.map_filter id (xs1 @ xs2))" rs]
    by (cases x) (simp_all add: xs(1))
  ultimately show ?thesis by blast
qed

lemma never_fails_no_error: "\<forall>t\<in>set pool. never_fails t \<Longrightarrow> Ret (Inl e) \<notin> set pool"
  by blast

context response_sender_contract
begin

lemma serve_step_silent:
  assumes "serve_step (serve_handler send service_port) (st, w) None (st', w')"
    and "publishes before (st, w) a"
  shows "\<exists>a'. (a' = a \<or> publisher_step service_port a None a') \<and> publishes before (st', w') a'"
  using assms(1)
proof (cases rule: serve_step.cases)
  case (loop s s')
  from assms(2) show ?thesis
    unfolding loop(1)
  proof (cases rule: publishes_LoopE)
    case 1: (publishing b pool xs rs)
    from loop(3) [unfolded 1(1)] show ?thesis
    proof (cases rule: fec_step.cases)
      case (handler i f t)
      then show ?thesis
        using handler_step_refines [OF 1(3,4,5), of i f t w' b service_port] 1(2) loop(2) by simp
    next
      case (handler_done pool1 pool2)
      then show ?thesis
        using handler_done_refines [of xs pool1 pool2 w before rs b service_port] 1 loop(2) by simp
    next
      case (handler_err e)
      then show ?thesis using never_fails_no_error [OF 1(4)] by blast
    next
      case finished
      then have "publisher_step service_port a None (Stopped (Inr ()), rs)"
        using 1 by (auto intro: publisher_step.settled)
      moreover have "publishes before (st', w') (Stopped (Inr ()), rs)"
        using publishes.returned [OF 1(5), of "Inr ()"] finished loop(2) by (simp add: map_err_def)
      ultimately show ?thesis by blast
    qed
  next
    case (returned r rs)
    with loop(3) show ?thesis by simp
  qed
next
  case (returned r)
  from assms(2) show ?thesis
    unfolding returned(1) by (cases rule: publishes_LoopE) (auto simp: returned intro: publishes.exited)
qed (use assms(2) in \<open>auto elim: publishes_SetupE\<close>)

lemma serve_step_event:
  assumes "serve_step (serve_handler send service_port) (st, w) (Some ev) (st', w')"
    and "publishes before (st, w) a"
  shows "\<exists>a'. publisher_step service_port a (Some ev) a' \<and> publishes before (st', w') a'"
  using assms(1)
proof (cases rule: serve_step.cases)
  case (loop s s')
  from assms(2) show ?thesis
    unfolding loop(1)
  proof (cases rule: publishes_LoopE)
    case 1: (publishing b pool xs rs)
    from loop(3) [unfolded 1(1)] show ?thesis
    proof (cases rule: fec_step.cases)
      case (item i)
      have extended: "list_all2 (emits_upto delivered_response) (xs @ [answer service_port i])
          (pool @ [serve_handler send service_port i])"
        using 1(3) handler_emits by (simp add: list_all2_appendI)
      have safe: "\<forall>t\<in>set (pool @ [serve_handler send service_port i]). never_fails t"
        using 1(4) handler_never_fails by auto
      have "publishes before (st', w')
          (Publishing False (mset (List.map_filter id (xs @ [answer service_port i]))), rs)"
        using publishes.publishing [OF extended safe 1(5), of False] item loop(2) by simp
      moreover have "publisher_step service_port a (Some ev)
          (Publishing False (mset (List.map_filter id (xs @ [answer service_port i]))), rs)"
        using 1(2) item publisher_step.request publisher_step.other_packet
        by (cases "answer service_port i") simp_all
      ultimately show ?thesis by blast
    next
      case (item_err e)
      then have "publishes before (st', w') (Stopped (Inl (Network_Io e)), rs)"
        using publishes.returned [OF 1(5), of "Inl e"] loop(2) by (simp add: map_err_def)
      then show ?thesis using 1(2) item_err publisher_step.packets_failed by blast
    next
      case stream_end
      then have "publishes before (st', w') (Publishing True (mset (List.map_filter id xs)), rs)"
        using publishes.publishing [OF 1(3,4,5), of True] loop(2) by simp
      then show ?thesis using 1(2) stream_end publisher_step.packets_ended by blast
    qed
  next
    case (returned r rs)
    with loop(3) show ?thesis by simp
  qed
qed

lemma serve_run_publishes:
  assumes "serve_run (serve_handler send service_port) (Serve_Loop (Running False []), w0) evs c"
  shows "\<exists>a. publisher_run service_port (Publishing False {#}, []) evs a \<and> publishes (responses w0) c a"
  using assms
proof (induction rule: serve_run.induct)
  case start
  have "publishes (responses w0) (Serve_Loop (Running False []), w0)
      (Publishing False (mset (List.map_filter id [])), [])"
    by (rule publishes.publishing) auto
  then show ?case by (auto intro: publisher_run.start)
next
  case (silent evs c' c'')
  obtain st w st' w' where c: "c' = (st, w)" "c'' = (st', w')" by (cases c'; cases c'')
  from silent.IH obtain a where a: "publisher_run service_port (Publishing False {#}, []) evs a"
    "publishes (responses w0) (st, w) a" by (auto simp: c)
  from serve_step_silent [OF silent.hyps(2) [unfolded c] a(2)] obtain a' where
    "a' = a \<or> publisher_step service_port a None a'" "publishes (responses w0) (st', w') a'" by blast
  with a(1) show ?case unfolding c by (metis publisher_run.silent)
next
  case (event evs c' ev c'')
  obtain st w st' w' where c: "c' = (st, w)" "c'' = (st', w')" by (cases c'; cases c'')
  from event.IH obtain a where a: "publisher_run service_port (Publishing False {#}, []) evs a"
    "publishes (responses w0) (st, w) a" by (auto simp: c)
  from serve_step_event [OF event.hyps(2) [unfolded c] a(2)] obtain a' where
    "publisher_step service_port a (Some ev) a'" "publishes (responses w0) (st', w') a'" by blast
  with a(1) show ?case unfolding c by (metis publisher_run.event)
qed

end

text \<open>The response the spec machine has given can be told from its run: each answers one request.\<close>

lemma publisher_run_bounded:
  assumes "publisher_run service_port (Publishing False {#}, []) evs (a, rs)"
  shows "(case a of Publishing b M \<Rightarrow> mset rs + M \<subseteq># mset (List.map_filter (answer service_port) (yields evs))
    | Stopped r \<Rightarrow> mset rs \<subseteq># mset (List.map_filter (answer service_port) (yields evs)))"
  using assms
proof (induction evs "(a, rs)" arbitrary: a rs rule: publisher_run.induct)
  case (silent evs a')
  from silent.hyps(3) silent.hyps(2) [of "fst a'" "snd a'"] show ?case
    by (cases rule: publisher_step.cases)
      (auto dest: subset_mset_left dest!: mset_subset_eq_insertD intro: subset_mset.less_imp_le)
next
  case (event evs a' ev)
  from event.hyps(3) event.hyps(2) [of "fst a'" "snd a'"] show ?case
    by (cases rule: publisher_step.cases) (auto dest: subset_mset_left simp: List.map_filter_simps)
qed simp

section \<open>Properties\<close>

text \<open>
  C6: Once it has announced itself, every run of the server, whatever the interleaving
  of its handlers, is a run of the abstract publisher on the same packets, which has given the same responses
  in the same order; when the server has returned, the publisher has stopped with the same result.
\<close>

theorem server_refines_publisher:
  assumes "response_sender_contract send"
    and "serve_run (serve_handler send service_port) (Serve_Loop (Running False []), w0) evs (st, w)"
  shows "\<exists>a rs. publisher_run service_port (Publishing False {#}, []) evs (a, rs) \<and>
    responses w = responses w0 @ rs \<and> (\<forall>r. st = Serve_Exited r \<longrightarrow> a = Stopped r)"
proof -
  obtain a rs where run: "publisher_run service_port (Publishing False {#}, []) evs (a, rs)"
    and rel: "publishes (responses w0) (st, w) (a, rs)"
    using response_sender_contract.serve_run_publishes [OF assms] by (metis surj_pair)
  from rel have "st = Serve_Exited r \<Longrightarrow> a = Stopped r" for r by (auto elim: publishes.cases)
  with run publishes_responses [OF rel] show ?thesis by blast
qed

text \<open>A server that answers one request and stops when its receiver fails.\<close>

abbreviation example_request :: "discovery_packet \<times> sockaddr_v6" where
  "example_request \<equiv> (packet_from_request \<lparr>req_response_collector_port = into_u32 7\<rparr>, wildcard_addr)"

theorem server_refines_publisher_witness:
  "\<exists>w a rs. serve_run (serve_handler grpc_send 80) (Serve_Loop (Running False []), fresh_world)
      [Yield (Inr example_request), Yield (Inl (Io_Error 5))] (Serve_Exited (Inl (Network_Io (Io_Error 5))), w) \<and>
    publisher_run 80 (Publishing False {#}, []) [Yield (Inr example_request), Yield (Inl (Io_Error 5))] (a, rs) \<and>
    responses w = rs \<and> a = Stopped (Inl (Network_Io (Io_Error 5)))"
proof -
  let ?h = "serve_handler grpc_send 80" and ?start = "(Serve_Loop (Running False []), fresh_world)"
  have "serve_run ?h ?start ([] @ [Yield (Inr example_request)])
      (Serve_Loop (Running False ([] @ [?h example_request])), fresh_world)"
    by (rule serve_run.event [OF serve_run.start serve_step.loop [OF fec_step.item]])
  from serve_run.event [OF this serve_step.loop [OF fec_step.item_err], of "Io_Error 5"]
  have "serve_run ?h ?start [Yield (Inr example_request), Yield (Inl (Io_Error 5))]
      (Serve_Loop (Returned (Inl (Io_Error 5))), fresh_world)" by simp
  from serve_run.silent [OF this serve_step.returned]
  have run: "serve_run ?h ?start [Yield (Inr example_request), Yield (Inl (Io_Error 5))]
      (Serve_Exited (Inl (Network_Io (Io_Error 5))), fresh_world)" by (simp add: map_err_def)
  have "responses fresh_world = []" by (simp add: log_of_def fresh_world_def)
  with server_refines_publisher [OF grpc.response_sender_contract_axioms run] run show ?thesis by auto
qed

end
