(* ===== verification/Server_Exec.thy ===== *)
theory Server_Exec
  imports Server
begin

text \<open>
  Running a server: one schedule of \<^verbatim>\<open>serve_internal\<close>, computed from the packets that arrive, in which
  each handler runs to its end before the next packet is taken; and the proof that it is a run.
\<close>

fun fec_exec ::
  "('i \<Rightarrow> ('e, unit) result task) \<Rightarrow> ('e, 'i) stream_event list \<Rightarrow> world \<Rightarrow>
   ('e, unit) result option \<times> world" where
  "fec_exec handle [] w = (None, w)"
| "fec_exec handle (Yield (Inr i) # evs) w =
     (case exec (handle i) w of
        (Inr u, w') \<Rightarrow> fec_exec handle evs w'
      | (Inl e, w') \<Rightarrow> (Some (Inl e), w'))"
| "fec_exec handle (Yield (Inl e) # evs) w = (Some (Inl e), w)"
| "fec_exec handle (Stream_End # evs) w = (Some (Inr ()), w)"

lemma fec_run_handler:
  "fec_run handle c evs (Running b [t], w) \<Longrightarrow> exec t w = (r, w') \<Longrightarrow>
     fec_run handle c evs (case r of Inr u \<Rightarrow> Running b [] | Inl e \<Rightarrow> Returned (Inl e), w')"
proof (induction t arbitrary: w rule: task_induct)
  case (Ret x)
  then show ?case
    using fec_step.handler_done [of handle b "[]" "[]" w] fec_step.handler_err [of _ "[Ret x]" handle b w]
    by (cases x) (auto intro: fec_run.silent)
next
  case (Act f)
  obtain t w1 where f: "f w = (t, w1)" by (cases "f w")
  have "fec_run handle c evs (Running b [t], w1)"
    using fec_run.silent [OF Act.prems(1) fec_step.handler [of 0 "[Act f]" f w t w1 handle b]] f by simp
  moreover have "exec t w1 = (r, w')" using Act.prems(2) f by (simp add: exec_Act)
  ultimately show ?case by (rule Act.IH [OF f])
qed

lemma fec_exec_run:
  assumes "fec_exec handle evs w = (Some r, w')" and "fec_run handle c evs0 (Running False [], w)"
  shows "\<exists>evs1 evs2. evs = evs1 @ evs2 \<and> fec_run handle c (evs0 @ evs1) (Returned r, w')"
  using assms
proof (induction handle evs w arbitrary: evs0 rule: fec_exec.induct)
  case (2 handle i evs w)
  obtain r1 w1 where x: "exec (handle i) w = (r1, w1)" by (cases "exec (handle i) w")
  have "fec_run handle c (evs0 @ [Yield (Inr i)]) (Running False [handle i], w)"
    using fec_run.event [OF 2(3) fec_step.item [of handle "[]" w i]] by simp
  note run = fec_run_handler [OF this x]
  show ?case
  proof (cases r1)
    case (Inl e)
    then have "r = Inl e" "w' = w1" using 2(2) x by auto
    then show ?thesis using run Inl by (intro exI [of _ "[Yield (Inr i)]"] exI [of _ evs]) auto
  next
    case (Inr u)
    then have rest: "fec_exec handle evs w1 = (Some r, w')" using 2(2) x by simp
    have "fec_run handle c (evs0 @ [Yield (Inr i)]) (Running False [], w1)" using run Inr by simp
    from 2(1) [OF x [symmetric] Inr rest this] obtain evs1 evs2 where "evs = evs1 @ evs2"
      "fec_run handle c ((evs0 @ [Yield (Inr i)]) @ evs1) (Returned r, w')" by blast
    then show ?thesis by (intro exI [of _ "Yield (Inr i) # evs1"] exI [of _ evs2]) auto
  qed
next
  case (3 handle e evs w)
  then show ?case
    using fec_run.event [OF 3(2) fec_step.item_err [of handle "[]" w e]]
    by (intro exI [of _ "[Yield (Inl e)]"] exI [of _ evs]) auto
next
  case (4 handle evs w)
  then show ?case
    using fec_run.silent [OF fec_run.event [OF 4(2) fec_step.stream_end] fec_step.finished]
    by (intro exI [of _ "[Stream_End]"] exI [of _ evs]) auto
qed simp

text \<open>The whole of \<^verbatim>\<open>serve_internal\<close>: its result when it has returned, and the world.\<close>

definition serve_exec ::
  "((io_error, unit) result task list \<Rightarrow> (io_error, unit list) result task) \<Rightarrow>
   (discovery_packet \<Rightarrow> byte list) \<Rightarrow> u16 \<Rightarrow> u16 \<Rightarrow>
   (io_error, discovery_packet \<times> sockaddr_v6) stream_event list \<Rightarrow>
   response_sender \<Rightarrow> udp_sender \<Rightarrow> ip_neighbor_scanner \<Rightarrow> world \<Rightarrow>
   (serve_error, unit) result option \<times> world" where
  "serve_exec try_join_all encode discovery_port service_port packets response_sender udp_sender
     ip_neighbor_scanner w =
     (case exec (serve_setup try_join_all encode discovery_port service_port udp_sender ip_neighbor_scanner) w of
        (Inl e, w') \<Rightarrow> (Some (Inl e), w')
      | (Inr u, w') \<Rightarrow>
          (case fec_exec (serve_handler response_sender service_port) packets w' of
             (r, w'') \<Rightarrow> (map_option (map_err Network_Io) r, w'')))"

lemma serve_exec_run:
  assumes "serve_exec try_join_all encode discovery_port service_port packets response_sender udp_sender
      ip_neighbor_scanner w = (Some r, w')"
  shows "\<exists>taken rest. packets = taken @ rest \<and>
    serve_run (serve_handler response_sender service_port)
      (serve_internal try_join_all encode discovery_port service_port udp_sender ip_neighbor_scanner, w)
      taken (Serve_Exited r, w')"
proof -
  let ?t = "serve_setup try_join_all encode discovery_port service_port udp_sender ip_neighbor_scanner"
  let ?h = "serve_handler response_sender service_port" and ?c = "(Serve_Setup ?t, w)"
  obtain r1 w1 where x: "exec ?t w = (r1, w1)" by (cases "exec ?t w")
  have announced: "serve_run ?h ?c [] (Serve_Setup (Ret r1), w1)"
    by (rule serve_run_exec_setup [OF serve_run.start x])
  show ?thesis
  proof (cases r1)
    case (Inl e)
    then have "r = Inl e" "w' = w1" using assms x by (auto simp: serve_exec_def)
    then show ?thesis
      using serve_run.silent [OF announced [unfolded Inl] serve_step.announce_failed]
      by (intro exI [of _ "[]"] exI [of _ packets]) (simp add: serve_internal_def)
  next
    case (Inr u)
    then obtain v where v: "fec_exec ?h packets w1 = (Some v, w')" "r = map_err Network_Io v"
      using assms x by (auto simp: serve_exec_def split: prod.splits)
    from fec_exec_run [OF v(1) fec_run.start] obtain taken rest where
      packets: "packets = taken @ rest" and run: "fec_run ?h (Running False [], w1) ([] @ taken) (Returned v, w')"
      by blast
    have "serve_run ?h ?c [] (Serve_Loop (Running False []), w1)"
      by (rule serve_run.silent [OF announced [unfolded Inr] serve_step.announced])
    from serve_run_of_fec_run [OF run this]
    have "serve_run ?h ?c taken (Serve_Loop (Returned v), w')" by simp
    from serve_run.silent [OF this serve_step.returned]
    show ?thesis using packets v(2) by (auto simp: serve_internal_def)
  qed
qed

section \<open>Properties\<close>

text \<open>
  The deterministic schedule, which runs each handler to its end before it takes the
  next packet, is one of the server's runs, on the packets taken so far, with the same result and effects.
\<close>

theorem server_schedule_sound:
  assumes "serve_exec try_join_all encode port service_port packets send sender nbs w = (Some r, w')"
  shows "\<exists>taken rest. packets = taken @ rest \<and>
    serve_run (serve_handler send service_port)
      (serve_internal try_join_all encode port service_port sender nbs, w) taken (Serve_Exited r, w')"
  using assms by (rule serve_exec_run)

theorem server_schedule_sound_witness:
  "\<exists>taken rest. [Yield (Inl (Io_Error 5)), Stream_End] = taken @ rest \<and>
    serve_run (serve_handler grpc_send 80)
      (serve_internal join_in_order encode_packet 0 80 tokio_udp_sender dummy_scanner, fresh_world) taken
      (Serve_Exited (Inl Serve_Invalid_Discovery_Port), fresh_world)"
  by (rule server_schedule_sound) (simp add: serve_exec_def serve_setup_def)

end
