(* ===== verification/Network.thy ===== *)
theory Network
  imports Scanner Server Collection
begin

text \<open>
  Scanners and servers on one network: each step of a host is an execution of the code that the other
  theories model, in any world. The network may lose, duplicate, delay and reorder datagrams, and carries
  others that are not packets; some hosts may be hostile, sending any datagram and making any gRPC call, though
  only from addresses of their own; and a host that receives a datagram on which decoding never ends is stuck.
\<close>

section \<open>Participants\<close>

text \<open>
  Hosts are numbers; one that has a scanner or a server may start it at any time. \<open>sees T i j a\<close> says that what host \<open>j\<close> sends can reach host \<open>i\<close>, which then sees
  \<open>a\<close> as the address it came from: a host may have several addresses, its sockets have ports of the
  system's choice, and the scope is that of the receiver.
\<close>

record topology =
  is_scanner :: "nat \<Rightarrow> bool"
  is_server :: "nat \<Rightarrow> bool"
  discovery_port :: u16
  collector_port :: "nat \<Rightarrow> u16"
  published_port :: "nat \<Rightarrow> u16"
  sees :: "nat \<Rightarrow> nat \<Rightarrow> sockaddr_v6 \<Rightarrow> bool"

text \<open>What was added to a projection of the trace between two worlds.\<close>

definition new_in :: "(event \<Rightarrow> 'b list) \<Rightarrow> world \<Rightarrow> world \<Rightarrow> 'b set" where
  "new_in proj w w' = set (drop (length (log_of proj w)) (log_of proj w'))"

lemma new_in_append [simp]: "log_of proj w' = log_of proj w @ xs \<Longrightarrow> new_in proj w w' = set xs"
  by (simp add: new_in_def)

text \<open>The text a server connects to names the collector of \<open>i\<close>, as the server sees its host.\<close>

definition connects :: "topology \<Rightarrow> nat \<Rightarrow> nat \<Rightarrow> string \<Rightarrow> bool" where
  "connects T j i collector \<longleftrightarrow> take 7 collector = ''http://'' \<and>
     (\<exists>a. sees T j i a \<and>
        parse_sockaddr_v6 (drop 7 collector) = Some (a\<lparr>sa_port := collector_port T i, sa_flowinfo := 0\<rparr>))"

section \<open>The network\<close>

text \<open>
  The datagrams and calls that were ever made, with the host they come from; what each scanner has: the channel
  of its collector and the services it has heard announced; and the hosts that are stuck.
\<close>

record network =
  nw_datagrams :: "(nat \<times> byte list) set"
  nw_calls :: "(nat \<times> string \<times> response) set"
  nw_channels :: "nat \<Rightarrow> service channel"
  nw_heard :: "nat \<Rightarrow> service list"
  nw_stuck :: "nat set"

definition quiet_network :: network where
  "quiet_network = \<lparr>nw_datagrams = {}, nw_calls = {}, nw_channels = (\<lambda>_. fresh_channel), nw_heard = (\<lambda>_. []),
     nw_stuck = {}\<rparr>"

abbreviation put_datagrams :: "nat \<Rightarrow> world \<Rightarrow> world \<Rightarrow> network \<Rightarrow> network" where
  "put_datagrams i w w' n \<equiv>
     n\<lparr>nw_datagrams := nw_datagrams n \<union> {(i, d) | a d. (a, d) \<in> new_in sent_datagram w w'}\<rparr>"

abbreviation put_calls :: "nat \<Rightarrow> world \<Rightarrow> world \<Rightarrow> network \<Rightarrow> network" where
  "put_calls j w w' n \<equiv> n\<lparr>nw_calls := nw_calls n \<union> Pair j ` new_in delivered_response w w'\<rparr>"

text \<open>
  The steps. A scanner sends its requests and a server announces itself with whatever neighbours it finds; a
  server handles a packet; a collector is given a response, which a connection made before its host was stuck
  may still do; a scanner takes up a packet. A gRPC server hands a submission to the
  collector whose address was connected to.
\<close>

inductive network_step ::
  "topology \<Rightarrow> (discovery_packet \<Rightarrow> byte list) \<Rightarrow> discovery_packet message_decoder \<Rightarrow>
   network \<Rightarrow> network \<Rightarrow> bool" for T encode decode where
  scanner_requests: "is_scanner T i \<Longrightarrow> i \<notin> nw_stuck n \<Longrightarrow> neighbor_scanner_contract nbs \<Longrightarrow>
    exec (send_requests encode tokio_udp_sender nbs
      \<lparr>req_response_collector_port = into_u32 (collector_port T i)\<rparr> (discovery_port T)) w = (sending, w') \<Longrightarrow>
    network_step T encode decode n (put_datagrams i w w' n)"
| server_announces: "is_server T j \<Longrightarrow> j \<notin> nw_stuck n \<Longrightarrow> neighbor_scanner_contract nbs \<Longrightarrow>
    try_join_all_contract join_all \<Longrightarrow>
    exec (serve_setup join_all encode (discovery_port T) (published_port T j) tokio_udp_sender nbs) w
      = (announcing, w') \<Longrightarrow>
    network_step T encode decode n (put_datagrams j w w' n)"
| noise: "message_in decode d \<in> {None, Some None} \<Longrightarrow>
    network_step T encode decode n (n\<lparr>nw_datagrams := insert (h, d) (nw_datagrams n)\<rparr>)"
| server_answers: "is_server T j \<Longrightarrow> j \<notin> nw_stuck n \<Longrightarrow> (h, d) \<in> nw_datagrams n \<Longrightarrow> sees T j h a \<Longrightarrow>
    message_in decode d = Some (Some p) \<Longrightarrow>
    exec (serve_handler grpc_send (published_port T j) (p, a)) w = (handling, w') \<Longrightarrow>
    network_step T encode decode n (put_calls j w w' n)"
| collector_receives: "is_scanner T i \<Longrightarrow> (j, collector, res) \<in> nw_calls n \<Longrightarrow> sees T i j b \<Longrightarrow>
    connects T j i collector \<Longrightarrow>
    submit_response channel_send (Some (V6 b)) res (nw_channels n i) = (r, c) \<Longrightarrow>
    network_step T encode decode n (n\<lparr>nw_channels := (nw_channels n)(i := c)\<rparr>)"
| scanner_hears: "is_scanner T i \<Longrightarrow> i \<notin> nw_stuck n \<Longrightarrow> (h, d) \<in> nw_datagrams n \<Longrightarrow> sees T i h a \<Longrightarrow>
    message_in decode d = Some (Some p) \<Longrightarrow> extract_service p a = Inr s \<Longrightarrow>
    network_step T encode decode n (n\<lparr>nw_heard := (nw_heard n)(i := nw_heard n i @ [s])\<rparr>)"
| host_stuck: "(h, d) \<in> nw_datagrams n \<Longrightarrow> sees T i h a \<Longrightarrow> message_in decode d = None \<Longrightarrow>
    network_step T encode decode n (n\<lparr>nw_stuck := insert i (nw_stuck n)\<rparr>)"

text \<open>The same with hostile hosts \<open>F\<close>.\<close>

inductive attacked_step ::
  "topology \<Rightarrow> (discovery_packet \<Rightarrow> byte list) \<Rightarrow> discovery_packet message_decoder \<Rightarrow> nat set \<Rightarrow>
   network \<Rightarrow> network \<Rightarrow> bool" for T encode decode F where
  honest: "network_step T encode decode n n' \<Longrightarrow> attacked_step T encode decode F n n'"
| forged_datagram: "h \<in> F \<Longrightarrow>
    attacked_step T encode decode F n (n\<lparr>nw_datagrams := insert (h, d) (nw_datagrams n)\<rparr>)"
| forged_call: "h \<in> F \<Longrightarrow>
    attacked_step T encode decode F n (n\<lparr>nw_calls := insert (h, collector, res) (nw_calls n)\<rparr>)"

abbreviation attacked_reachable ::
  "topology \<Rightarrow> (discovery_packet \<Rightarrow> byte list) \<Rightarrow> discovery_packet message_decoder \<Rightarrow> nat set \<Rightarrow> network \<Rightarrow>
   bool" where
  "attacked_reachable T encode decode F \<equiv> (attacked_step T encode decode F)\<^sup>*\<^sup>* quiet_network"

lemma network_reachable_attacked:
  "(network_step T encode decode)\<^sup>*\<^sup>* n n' \<Longrightarrow> (attacked_step T encode decode F)\<^sup>*\<^sup>* n n'"
  by (induction rule: rtranclp_induct) (auto intro: attacked_step.honest rtranclp.rtrancl_into_rtrancl)

text \<open>What a scanner has discovered: through its collector and by listening.\<close>

definition discovered :: "network \<Rightarrow> nat \<Rightarrow> service set" where
  "discovered n i = set (ch_queue (nw_channels n i)) \<union> set (nw_heard n i)"

section \<open>What the code puts on the network\<close>

definition request_of :: "topology \<Rightarrow> nat \<Rightarrow> discovery_packet" where
  "request_of T i = packet_from_request \<lparr>req_response_collector_port = into_u32 (collector_port T i)\<rparr>"

definition announcement_of :: "topology \<Rightarrow> nat \<Rightarrow> discovery_packet" where
  "announcement_of T j = packet_from_response \<lparr>res_service_port = into_u32 (published_port T j)\<rparr>"

lemma scanner_sends_requests:
  assumes "neighbor_scanner_contract nbs"
    and "exec (send_requests encode tokio_udp_sender nbs
      \<lparr>req_response_collector_port = into_u32 (collector_port T i)\<rparr> port) w = (r, w')"
    and "(a, d) \<in> new_in sent_datagram w w'"
  shows "d = encode (request_of T i)"
proof -
  let ?mc = "(socket_addr_v6 get_discovery_ip port 0 0, encode (request_of T i))"
  from exec_send_requests [OF tokio.udp_sender_contract_axioms assms(1,2) refl]
  consider "datagrams w' = datagrams w @ []" | "datagrams w' = datagrams w @ [?mc]"
    | ns k where "datagrams w' = datagrams w @ (?mc # map (\<lambda>n. (get_socket_address n port, snd ?mc)) (take k ns))"
    by (auto simp: request_of_def)
  then show ?thesis using assms(3) by cases (auto simp only: new_in_append, auto)
qed

lemma server_sends_announcements:
  assumes "neighbor_scanner_contract nbs" and "try_join_all_contract join_all"
    and "exec (serve_setup join_all encode port (published_port T j) tokio_udp_sender nbs) w = (r, w')"
    and "(a, d) \<in> new_in sent_datagram w w'"
  shows "d = encode (announcement_of T j)"
proof (cases "port = 0")
  case True
  then show ?thesis using assms(3,4) by (auto simp: serve_setup_def new_in_def)
next
  case False
  let ?da = "socket_addr_v6 get_discovery_ip port 0 0"
  have "exec (announce join_all encode ?da (published_port T j) tokio_udp_sender nbs) w = (r, w')"
    using assms(3) False by (simp add: serve_setup_def Let_def)
  from exec_announce [OF tokio.udp_sender_contract_axioms assms(1,2) this refl]
  consider "datagrams w' = datagrams w @ []"
    | ns zs where "datagrams w' = datagrams w @ ((?da, encode (announcement_of T j)) # zs)"
        "mset zs \<subseteq># mset (map (\<lambda>n. (get_socket_address n port, encode (announcement_of T j))) ns)"
    by (auto simp: announcement_of_def)
  then show ?thesis
  proof cases
    case 2
    then have "set zs \<subseteq> set (map (\<lambda>n. (get_socket_address n port, encode (announcement_of T j))) ns)"
      by (metis set_mset_mono set_mset_mset)
    then show ?thesis using 2(1) assms(4) by (auto simp only: new_in_append) auto
  qed (use assms(4) in \<open>simp add: new_in_def\<close>)
qed

lemma server_calls:
  assumes "exec (serve_handler grpc_send port (p, a)) w = (r, w')" and "x \<in> new_in delivered_response w w'"
  shows "answer port (p, a) = Some x"
proof (cases "answer port (p, a)")
  case None
  then show ?thesis using assms by (simp add: exec_serve_handler new_in_def)
next
  case (Some y)
  obtain collector res where y: "y = (collector, res)" by (cases y)
  obtain v w1 where send: "exec (grpc_send res collector) w = (v, w1)" by (cases "exec (grpc_send res collector) w")
  then have "w' = w1" using assms(1) Some y by (simp add: exec_serve_handler)
  then show ?thesis using exec_grpc_send [OF send] assms(2) Some y by (auto split: if_splits)
qed

lemma answer_SomeD:
  "answer port (p, a) = Some (collector, res) \<Longrightarrow>
     \<exists>cport. p = packet_from_request \<lparr>req_response_collector_port = into_u32 cport\<rparr> \<and>
       collector = ''http://'' @ show_sockaddr_v6 (a\<lparr>sa_port := cport\<rparr>) \<and> res = \<lparr>res_service_port = into_u32 port\<rparr>"
  by (auto simp: answer_def unwrap_request_Some_iff try_into_u16_Some_iff split: option.splits)
    (metis request.surjective old.unit.exhaust)

lemma extract_service_SomeD:
  "extract_service p a = Inr s \<Longrightarrow>
     \<exists>port. p = packet_from_response \<lparr>res_service_port = into_u32 port\<rparr> \<and> s = \<lparr>address = a\<lparr>sa_port := port\<rparr>\<rparr>"
  by (auto simp: extract_service_def result_simps unwrap_response_Some_iff try_into_u16_Some_iff set_port_def
      split: option.splits)
    (metis response.surjective old.unit.exhaust)

section \<open>The invariant\<close>

definition genuine :: "topology \<Rightarrow> nat \<Rightarrow> service \<Rightarrow> bool" where
  "genuine T i s \<longleftrightarrow>
     (\<exists>j b. is_server T j \<and> sees T i j b \<and> s = \<lparr>address = b\<lparr>sa_port := published_port T j\<rparr>\<rparr>)"

text \<open>A service at an address of a hostile host, with any port.\<close>

definition forged :: "topology \<Rightarrow> nat set \<Rightarrow> nat \<Rightarrow> service \<Rightarrow> bool" where
  "forged T F i s \<longleftrightarrow> (\<exists>h\<in>F. \<exists>b port. sees T i h b \<and> s = \<lparr>address = b\<lparr>sa_port := port\<rparr>\<rparr>)"

text \<open>The collector a server may connect to: of a scanner that asked, or of a hostile host that did.\<close>

definition asked :: "topology \<Rightarrow> nat set \<Rightarrow> nat \<Rightarrow> string \<Rightarrow> bool" where
  "asked T F j collector \<longleftrightarrow>
     (\<exists>h a port. sees T j h a \<and> collector = ''http://'' @ show_sockaddr_v6 (a\<lparr>sa_port := port\<rparr>) \<and>
        (h \<in> F \<or> is_scanner T h \<and> port = collector_port T h))"

definition network_invariant ::
  "topology \<Rightarrow> (discovery_packet \<Rightarrow> byte list) \<Rightarrow> discovery_packet message_decoder \<Rightarrow> nat set \<Rightarrow> network \<Rightarrow> bool"
where
  "network_invariant T encode decode F n \<longleftrightarrow>
     (\<forall>(h, d)\<in>nw_datagrams n. h \<in> F \<or>
        is_scanner T h \<and> d = encode (request_of T h) \<or>
        is_server T h \<and> d = encode (announcement_of T h) \<or> message_in decode d \<in> {None, Some None}) \<and>
     (\<forall>(j, collector, res)\<in>nw_calls n. j \<in> F \<or>
        is_server T j \<and> res = \<lparr>res_service_port = into_u32 (published_port T j)\<rparr> \<and> asked T F j collector) \<and>
     (\<forall>i. ch_receiver_alive (nw_channels n i) \<and> (\<forall>s\<in>discovered n i. genuine T i s \<or> forged T F i s)) \<and>
     (\<forall>i\<in>nw_stuck n. \<exists>(h, d)\<in>nw_datagrams n. (\<exists>a. sees T i h a) \<and> message_in decode d = None)"

lemma message_in_encoded:
  assumes "packet_codec encode decode" and "payload p \<noteq> None"
  shows "message_in decode (encode p) = Some (Some p)"
  by (rule message_in_message [where dec = decode, OF packet_codec.oneof_written [OF assms]
        message_codec.decode_encode [OF packet_codec.axioms(1) [OF assms(1)]]])

lemma message_in_of:
  assumes "packet_codec encode decode"
  shows "message_in decode (encode (request_of T i)) = Some (Some (request_of T i))"
    and "message_in decode (encode (announcement_of T i)) = Some (Some (announcement_of T i))"
  by (rule message_in_encoded [OF assms],
      simp add: request_of_def announcement_of_def packet_from_request_def packet_from_response_def)+

text \<open>Who sent a datagram that holds a packet.\<close>

lemma datagram_cases:
  assumes "packet_codec encode decode"
    and "network_invariant T encode decode F n" and "(h, d) \<in> nw_datagrams n" and "message_in decode d = Some (Some p)"
  obtains (hostile) "h \<in> F" | (request) "is_scanner T h" "p = request_of T h"
    | (announcement) "is_server T h" "p = announcement_of T h"
  using assms message_in_of [OF assms(1)] by (fastforce simp: network_invariant_def)

text \<open>A service that reaches a collector, from an honest server or a hostile host.\<close>

lemma collected_genuine_or_forged:
  assumes "network_invariant T encode decode F n" and "(j, collector, res) \<in> nw_calls n" and "sees T i j b"
    and "submit_response channel_send (Some (V6 b)) res c = (r, c')" and "s \<in> set (ch_queue c')"
  shows "s \<in> set (ch_queue c) \<or> genuine T i s \<or> forged T F i s"
  using assms(4)
proof (cases rule: submit_cases)
  case (accepted s')
  then obtain port where port: "res_service_port res = into_u32 port" "s' = \<lparr>address = b\<lparr>sa_port := port\<rparr>\<rparr>"
    by (auto simp: service_of_Some_iff set_port_def)
  from assms(1,2) consider "j \<in> F" | "is_server T j" "res = \<lparr>res_service_port = into_u32 (published_port T j)\<rparr>"
    by (auto simp: network_invariant_def)
  then have "genuine T i s' \<or> forged T F i s'"
  proof cases
    case 1
    then show ?thesis using assms(3) port(2) unfolding forged_def by blast
  next
    case 2
    then show ?thesis using assms(3) port by (auto simp: genuine_def)
  qed
  then show ?thesis using assms(5) accepted by auto
qed (use assms(5) in auto)

lemma network_invariant_step:
  assumes codec: "packet_codec encode decode"
    and "network_step T encode decode n n'" and inv: "network_invariant T encode decode F n"
  shows "network_invariant T encode decode F n'"
  using assms(2)
proof (cases rule: network_step.cases)
  case (scanner_requests i nbs w sending w')
  then show ?thesis
    using inv scanner_sends_requests [OF scanner_requests(4,5)]
    by (fastforce simp: network_invariant_def discovered_def)
next
  case (server_announces j nbs join_all w announcing w')
  then show ?thesis
    using inv server_sends_announcements [OF server_announces(4,5,6)]
    by (fastforce simp: network_invariant_def discovered_def)
next
  case (noise d h)
  then show ?thesis using inv by (fastforce simp: network_invariant_def discovered_def)
next
  case (server_answers j h d a p w handling w')
  have "is_server T j \<and> res = \<lparr>res_service_port = into_u32 (published_port T j)\<rparr> \<and> asked T F j collector"
    if made: "(collector, res) \<in> new_in delivered_response w w'" for collector res
  proof -
    obtain cport where call: "p = packet_from_request \<lparr>req_response_collector_port = into_u32 cport\<rparr>"
      "collector = ''http://'' @ show_sockaddr_v6 (a\<lparr>sa_port := cport\<rparr>)"
      "res = \<lparr>res_service_port = into_u32 (published_port T j)\<rparr>"
      using answer_SomeD [OF server_calls [OF server_answers(7) made]] by blast
    from codec inv server_answers(4,6) have "asked T F j collector"
    proof (cases rule: datagram_cases)
      case hostile
      then show ?thesis using server_answers(5) call(2) by (auto simp: asked_def)
    next
      case request
      then have "cport = collector_port T h" using call(1) by (simp add: request_of_def packet_from_request_def)
      then show ?thesis using server_answers(5) call(2) request(1) by (auto simp: asked_def)
    next
      case announcement
      then show ?thesis using call(1) by (simp add: announcement_of_def packet_from_request_def packet_from_response_def)
    qed
    then show ?thesis using server_answers(2) call(3) by blast
  qed
  then show ?thesis
    using inv unfolding server_answers(1) by (fastforce simp: network_invariant_def discovered_def)
next
  case (collector_receives i j collector res b r c)
  have alive: "ch_receiver_alive c = ch_receiver_alive (nw_channels n i)"
    using collector_receives(6) by (cases rule: submit_cases) auto
  have "genuine T i s \<or> forged T F i s" if "s \<in> set (ch_queue c)" for s
    using collected_genuine_or_forged [OF inv collector_receives(3,4,6) that] inv
    by (auto simp: network_invariant_def discovered_def)
  then show ?thesis
    using inv alive unfolding collector_receives(1) by (auto simp: network_invariant_def discovered_def)
next
  case (scanner_hears i h d a p s)
  obtain port where heard: "p = packet_from_response \<lparr>res_service_port = into_u32 port\<rparr>"
    "s = \<lparr>address = a\<lparr>sa_port := port\<rparr>\<rparr>" using extract_service_SomeD [OF scanner_hears(7)] by blast
  from codec inv scanner_hears(4,6) have "genuine T i s \<or> forged T F i s"
  proof (cases rule: datagram_cases)
    case hostile
    then show ?thesis using scanner_hears(5) heard(2) by (auto simp: forged_def)
  next
    case request
    then show ?thesis using heard(1) by (simp add: request_of_def packet_from_request_def packet_from_response_def)
  next
    case announcement
    then have "port = published_port T h" using heard(1) by (simp add: announcement_of_def packet_from_response_def)
    then show ?thesis using scanner_hears(5) heard(2) announcement(1) by (auto simp: genuine_def)
  qed
  then show ?thesis
    using inv unfolding scanner_hears(1) by (auto simp: network_invariant_def discovered_def)
next
  case (host_stuck h d i a)
  then show ?thesis using inv by (auto simp: network_invariant_def discovered_def)
qed

lemma attacked_invariant:
  assumes "packet_codec encode decode" and "attacked_reachable T encode decode F n"
  shows "network_invariant T encode decode F n"
  using assms(2)
proof (induction rule: rtranclp_induct)
  case base
  show ?case by (simp add: network_invariant_def quiet_network_def discovered_def fresh_channel_def)
next
  case (step n n')
  from step(2) show ?case
  proof (cases rule: attacked_step.cases)
    case honest
    then show ?thesis using network_invariant_step [OF assms(1)] step(3) by blast
  next
    case forged_datagram
    then show ?thesis using step(3) by (fastforce simp: network_invariant_def discovered_def)
  next
    case forged_call
    then show ?thesis using step(3) by (auto simp: network_invariant_def discovered_def)
  qed
qed

section \<open>Discovery is possible\<close>









section \<open>Properties\<close>

text \<open>
  C3: Among any number of scanners and servers, on a network that loses, duplicates, delays and
  reorders datagrams, where hostile hosts send any datagram and make any call, every service a scanner
  discovers is either published by a server, at an address the scanner sees that server at and with the port
  it publishes, or at an address of a hostile host: no host can be made to stand in for another.
\<close>

theorem forgers_contained:
  assumes "packet_codec encode decode"
    and "attacked_reachable T encode decode F n" and "s \<in> discovered n i"
  shows "(\<exists>j b. is_server T j \<and> sees T i j b \<and> s = \<lparr>address = b\<lparr>sa_port := published_port T j\<rparr>\<rparr>) \<or>
    (\<exists>h\<in>F. \<exists>b port. sees T i h b \<and> s = \<lparr>address = b\<lparr>sa_port := port\<rparr>\<rparr>)"
  using attacked_invariant [OF assms(1,2)] assms(3)
  by (fastforce simp: network_invariant_def genuine_def forged_def)



text \<open>A scanner, a server and a third host, each with one address.\<close>

definition host_addr :: "nat \<Rightarrow> sockaddr_v6" where
  "host_addr j = socket_addr_v6 (Ipv6_Addr 0xfe80 0 0 0 0 0 0 (word_of_nat (j + 1))) 5000 0 1"

definition example_topology :: topology where
  "example_topology =
     \<lparr>is_scanner = (\<lambda>i. i = 0), is_server = (\<lambda>j. j = 1), discovery_port = 50000, collector_port = (\<lambda>_. 4000),
      published_port = (\<lambda>_. 80), sees = (\<lambda>i j a. a = host_addr j)\<rparr>"

text \<open>The third host announces a service of its own making.\<close>

theorem forgers_contained_witness:
  "\<exists>n. attacked_reachable example_topology encode_packet decode_packet {2} n \<and>
     \<lparr>address = (host_addr 2)\<lparr>sa_port := 443\<rparr>\<rparr> \<in> discovered n 0 \<and>
     ((\<exists>j b. is_server example_topology j \<and> sees example_topology 0 j b \<and>
         \<lparr>address = (host_addr 2)\<lparr>sa_port := 443\<rparr>\<rparr> = \<lparr>address = b\<lparr>sa_port := published_port example_topology j\<rparr>\<rparr>) \<or>
      (\<exists>h\<in>{2}. \<exists>b port. sees example_topology 0 h b \<and>
         \<lparr>address = (host_addr 2)\<lparr>sa_port := 443\<rparr>\<rparr> = \<lparr>address = b\<lparr>sa_port := port\<rparr>\<rparr>))"
proof -
  let ?p = "packet_from_response \<lparr>res_service_port = into_u32 443\<rparr>"
  let ?s = "\<lparr>address = (host_addr 2)\<lparr>sa_port := 443\<rparr>\<rparr>"
  let ?step = "attacked_step example_topology encode_packet decode_packet {2}"
  let ?n1 = "quiet_network\<lparr>nw_datagrams := {(2, encode_packet ?p)}\<rparr>"
  let ?n2 = "?n1\<lparr>nw_heard := (nw_heard ?n1)(0 := nw_heard ?n1 0 @ [?s])\<rparr>"
  have "?step quiet_network ?n1"
    using attacked_step.forged_datagram [of 2 "{2}" example_topology encode_packet decode_packet quiet_network]
    by (simp add: quiet_network_def)
  moreover have "message_in decode_packet (encode_packet ?p) = Some (Some ?p)"
    by (rule message_in_encoded [OF wire.packet_codec_axioms]) (simp add: packet_from_response_def)
  moreover have "extract_service ?p (host_addr 2) = Inr ?s"
    by (simp add: extract_service_def result_simps set_port_def)
  then have "?step ?n1 ?n2"
    using calculation(2)
    by (intro attacked_step.honest network_step.scanner_hears [where h = 2 and a = "host_addr 2"
          and d = "encode_packet ?p" and p = ?p]) (simp_all add: example_topology_def quiet_network_def)
  ultimately have n2: "attacked_reachable example_topology encode_packet decode_packet {2} ?n2"
    by (meson r_into_rtranclp rtranclp_trans)
  moreover have s: "?s \<in> discovered ?n2 0" by (simp add: discovered_def)
  ultimately show ?thesis using forgers_contained [OF wire.packet_codec_axioms n2 s] by blast
qed



end
