(* ===== verification/Cli.thy ===== *)
theory Cli
  imports Scanner Server
begin



















section \<open>Properties\<close>


end
