(* ===== verification/Test_Support.thy ===== *)
theory Test_Support
  imports Scanner Server
begin

text \<open>
  What the unit tests of the source share: reading the address literals they are written with, and
  the mocks of \<^verbatim>\<open>mockall\<close>. A mock records its calls in the trace of the world and answers as it was
  told to; a call it does not expect, or expects no more, panics and so fails the test, which here is
  left to the check of the record at the end of a test.
\<close>

section \<open>Literals\<close>

lemma read_groups_numeral:
  "read_groups first (numeral k) s =
     (case (if 1 \<le> pred_numeral k then read_separator CHR '':'' first read_ipv4_addr s else None) of
        Some (Ipv4_Addr a b c d, rest) \<Rightarrow> (([from_be_bytes a b, from_be_bytes c d], True), rest)
      | None \<Rightarrow>
          (case read_separator CHR '':'' first read_group s of
             Some (g, rest) \<Rightarrow>
               (let ((gs, v4), rest') = read_groups False (pred_numeral k) rest in ((g # gs, v4), rest'))
           | None \<Rightarrow> (([], False), s)))"
  unfolding numeral_eq_Suc by simp

lemma replicate_numeral: "replicate (numeral k) x = x # replicate (pred_numeral k) x"
  by (simp add: numeral_eq_Suc)

lemmas parse_literal = read_groups_numeral replicate_numeral read_separator_def read_group_def
  read_number_def to_digit_def digit_value_def number_value_def read_ipv4_no_dot parse_ipv6_def
  read_ipv6_addr_def parse_sockaddr_v6_def read_scope_id_def read_port_def read_decimal_def

lemmas show_literal = show_sockaddr_v6_def show_ipv6_def show_radix.simps digit_char_def char_of_def bit_0

text \<open>\<^verbatim>\<open>"...".parse().unwrap()\<close> in a test.\<close>

definition ip :: "string \<Rightarrow> ipv6_addr" where
  "ip s = the (parse_ipv6 s)"

definition sockaddr :: "string \<Rightarrow> sockaddr_v6" where
  "sockaddr s = the (parse_sockaddr_v6 s)"

section \<open>Mocks\<close>

text \<open>What \<^verbatim>\<open>std::io::ErrorKind::Other.into()\<close> makes.\<close>

definition dummy_error :: io_error where
  "dummy_error = Io_Error 0"

text \<open>The calls of \<^verbatim>\<open>MockUdpSender\<close>, multicast on number 1 and unicast on number 2.\<close>

definition multicast_call :: "sockaddr_v6 \<Rightarrow> byte list \<Rightarrow> event" where
  "multicast_call a d = Ev_Send_To 1 d a (Inr (length d))"

definition unicast_call :: "sockaddr_v6 \<Rightarrow> byte list \<Rightarrow> event" where
  "unicast_call a d = Ev_Send_To 2 d a (Inr (length d))"

definition recorded :: "event \<Rightarrow> 'a \<Rightarrow> 'a task" where
  "recorded ev x = Act (\<lambda>w. (Ret x, w\<lparr>trace := trace w @ [ev]\<rparr>))"

lemma exec_recorded [simp]: "exec (recorded ev x) w = (x, w\<lparr>trace := trace w @ [ev]\<rparr>)"
  by (simp add: recorded_def exec_Act)

definition recording_udp_sender :: udp_sender where
  "recording_udp_sender =
     \<lparr>send_multicast = (\<lambda>a d. recorded (multicast_call a d) (Inr ())),
      send_unicast = (\<lambda>a d. recorded (unicast_call a d) (Inr ()))\<rparr>"

text \<open>The calls of \<^verbatim>\<open>MockResponseSender\<close>, with the answer it was told to give.\<close>

definition response_call :: "response \<Rightarrow> string \<Rightarrow> event" where
  "response_call r a = Ev_Submit (a, 0) r (Inr ())"

definition recording_response_sender :: "(anyhow_error, unit) result \<Rightarrow> response_sender" where
  "recording_response_sender r = (\<lambda>response a. recorded (response_call response a) r)"

definition mock_scanner :: "ip_neighbor list \<Rightarrow> ip_neighbor_scanner" where
  "mock_scanner neighbors =
     \<lparr>supports_current_operating_system = Ret True, scan_neighbors = Ret (Inr neighbors)\<rparr>"

text \<open>The kinds of call in a record.\<close>

fun is_multicast_call :: "event \<Rightarrow> bool" where
  "is_multicast_call (Ev_Send_To s d a r) \<longleftrightarrow> s = 1"
| "is_multicast_call _ \<longleftrightarrow> False"

fun is_unicast_call :: "event \<Rightarrow> bool" where
  "is_unicast_call (Ev_Send_To s d a r) \<longleftrightarrow> s = 2"
| "is_unicast_call _ \<longleftrightarrow> False"

fun is_response_call :: "event \<Rightarrow> bool" where
  "is_response_call (Ev_Submit c r x) \<longleftrightarrow> True"
| "is_response_call _ \<longleftrightarrow> False"

lemma calls_simps [simp]:
  "is_multicast_call (multicast_call a d)" "\<not> is_unicast_call (multicast_call a d)"
  "\<not> is_response_call (multicast_call a d)"
  "is_unicast_call (unicast_call a d)" "\<not> is_multicast_call (unicast_call a d)"
  "\<not> is_response_call (unicast_call a d)"
  "is_response_call (response_call r c)" "\<not> is_multicast_call (response_call r c)"
  "\<not> is_unicast_call (response_call r c)"
  by (simp_all add: multicast_call_def unicast_call_def response_call_def)

text \<open>
  \<open>within expected calls\<close>: every call was expected, and none was made more often than that.
\<close>

definition within :: "event list \<Rightarrow> event list \<Rightarrow> bool" where
  "within expected calls \<longleftrightarrow> mset calls \<subseteq># mset expected"

end
