(* ===== verification/Test_Server.thy ===== *)
theory Test_Server
  imports Test_Support Server_Exec
begin

text \<open>
  The unit tests of \<^verbatim>\<open>main/src/server.rs\<close>, on the deterministic schedule of the server, which is
  one of its runs (\<open>serve_exec_run\<close>).
\<close>

definition test_discovery_port :: u16 where
  "test_discovery_port = 50000"

text \<open>The packets of a test: \<^verbatim>\<open>stream::iter\<close> yields them and ends.\<close>

definition stream_iter :: "('e, 'i) result list \<Rightarrow> ('e, 'i) stream_event list" where
  "stream_iter xs = map Yield xs @ [Stream_End]"

definition one_shot_request_ending_with_dummy_error ::
  "(io_error, discovery_packet \<times> sockaddr_v6) result \<Rightarrow>
   (io_error, discovery_packet \<times> sockaddr_v6) stream_event list" where
  "one_shot_request_ending_with_dummy_error request = stream_iter [request, Inl dummy_error]"

text \<open>\<^verbatim>\<open>unwrap_err\<close> fails on success; an error that is not from the network is let through.\<close>

fun assert_server_exits_with_dummy_error :: "(serve_error, unit) result option \<Rightarrow> bool" where
  "assert_server_exits_with_dummy_error (Some (Inl (Network_Io e))) \<longleftrightarrow> e = dummy_error"
| "assert_server_exits_with_dummy_error (Some (Inl e)) \<longleftrightarrow> True"
| "assert_server_exits_with_dummy_error _ \<longleftrightarrow> False"

text \<open>\<^verbatim>\<open>mock_udp_sender\<close> expects one multicast, of any data to any address, and nothing else.\<close>

definition mock_udp_sender :: udp_sender where
  "mock_udp_sender = recording_udp_sender"

definition one_multicast :: "event list \<Rightarrow> bool" where
  "one_multicast calls \<longleftrightarrow>
     length (filter is_multicast_call calls) \<le> 1 \<and> filter is_unicast_call calls = []"

definition mock_ip_neighbor_scanner :: ip_neighbor_scanner where
  "mock_ip_neighbor_scanner = mock_scanner []"

section \<open>The tests\<close>

text \<open>
  Each test is a scenario, and whether it passes. \<open>join_all\<close> is the scheduler of the announcements,
  \<open>encode\<close> the encoding of packets.
\<close>

definition test_serve ::
  "((io_error, unit) result task list \<Rightarrow> (io_error, unit list) result task) \<Rightarrow>
   (discovery_packet \<Rightarrow> byte list) \<Rightarrow> world \<Rightarrow> bool" where
  "test_serve join_all encode w =
     (let request = packet_from_request \<lparr>req_response_collector_port = 3\<rparr>;
          request_address = sockaddr ''[::123%456]:2'';
          multicast_address = socket_addr_v6 get_discovery_ip test_discovery_port 0 0;
          ip_neighbors =
            [\<lparr>nb_address = ip ''FE80::A'', network_interface_index = 1000\<rparr>,
             \<lparr>nb_address = ip ''2001::B'', network_interface_index = 1001\<rparr>];
          response = \<lparr>res_service_port = 10\<rparr>;
          response_bytes = encode (packet_from_response response);
          requests = stream_iter [Inr (request, request_address), Inl dummy_error];
          expected =
            [response_call response ''http://[::123%456]:3'',
             multicast_call multicast_address response_bytes,
             unicast_call (sockaddr ''[FE80::A%1000]:50000'') response_bytes,
             unicast_call (sockaddr ''[2001::B]:50000'') response_bytes];
          (result, w') = serve_exec join_all encode test_discovery_port
            (the (try_into_u16 (res_service_port response))) requests (recording_response_sender (Inr ()))
            recording_udp_sender (mock_scanner ip_neighbors) w
      in assert_server_exits_with_dummy_error result \<and> within expected (drop (length (trace w)) (trace w')))"

definition test_port_out_of_range ::
  "((io_error, unit) result task list \<Rightarrow> (io_error, unit list) result task) \<Rightarrow>
   (discovery_packet \<Rightarrow> byte list) \<Rightarrow> world \<Rightarrow> bool" where
  "test_port_out_of_range join_all encode w =
     (let request = packet_from_request \<lparr>req_response_collector_port = 10000000\<rparr>;
          request_address = sockaddr ''[::123%456]:2'';
          requests = stream_iter [Inr (request, request_address), Inl dummy_error];
          (result, w') = serve_exec join_all encode test_discovery_port 10 requests
            (recording_response_sender (Inr ())) mock_udp_sender mock_ip_neighbor_scanner w;
          calls = drop (length (trace w)) (trace w')
      in assert_server_exits_with_dummy_error result \<and> one_multicast calls \<and>
         filter is_response_call calls = [])"

definition test_invalid_discovery_port ::
  "((io_error, unit) result task list \<Rightarrow> (io_error, unit list) result task) \<Rightarrow>
   (discovery_packet \<Rightarrow> byte list) \<Rightarrow>
   (byte list \<Rightarrow> (csv_error, net_neighbor) result list) \<Rightarrow>
   (byte list \<Rightarrow> (csv_error, linux_neighbor) result list) \<Rightarrow>
   (byte list \<Rightarrow> (json_error, link list) result) \<Rightarrow> world \<Rightarrow> bool" where
  "test_invalid_discovery_port join_all encode windows_rows linux_rows json_links w =
     (case serve join_all encode windows_rows linux_rows json_links 0 1 of
        Serve_Setup t \<Rightarrow> fst (exec t w) = Inl Serve_Invalid_Discovery_Port
      | _ \<Rightarrow> False)"

definition test_failing_to_handle_packet_does_not_stop_serving ::
  "((io_error, unit) result task list \<Rightarrow> (io_error, unit list) result task) \<Rightarrow>
   (discovery_packet \<Rightarrow> byte list) \<Rightarrow> world \<Rightarrow> bool" where
  "test_failing_to_handle_packet_does_not_stop_serving join_all encode w =
     (let request_source_address = sockaddr ''[::123]:2'';
          requests = one_shot_request_ending_with_dummy_error
            (Inr (packet_from_request \<lparr>req_response_collector_port = 0\<rparr>, request_source_address));
          response_sender = recording_response_sender (Inl (Anyhow_Message ''Failed to send response''));
          (result, w') = serve_exec join_all encode test_discovery_port 1 requests response_sender
            mock_udp_sender mock_ip_neighbor_scanner w;
          calls = drop (length (trace w)) (trace w')
      in assert_server_exits_with_dummy_error result \<and> one_multicast calls \<and>
         length (filter is_response_call calls) \<le> 1)"

definition test_handle_many_requests ::
  "((io_error, unit) result task list \<Rightarrow> (io_error, unit list) result task) \<Rightarrow>
   (discovery_packet \<Rightarrow> byte list) \<Rightarrow> world \<Rightarrow> bool" where
  "test_handle_many_requests join_all encode w =
     (let request_size = 128;
          request_source_address = sockaddr ''[::123]:2'';
          requests = stream_iter
            (replicate request_size
               (Inr (packet_from_request \<lparr>req_response_collector_port = 0\<rparr>, request_source_address)) @
             [Inl dummy_error]);
          (result, w') = serve_exec join_all encode test_discovery_port 1 requests
            (recording_response_sender (Inr ())) mock_udp_sender mock_ip_neighbor_scanner w;
          calls = drop (length (trace w)) (trace w')
      in assert_server_exits_with_dummy_error result \<and> one_multicast calls \<and>
         length (filter is_response_call calls) = request_size)"

section \<open>They pass\<close>

lemma literals:
  "sockaddr ''[::123%456]:2'' = socket_addr_v6 (Ipv6_Addr 0 0 0 0 0 0 0 0x123) 2 0 456"
  "sockaddr ''[::123]:2'' = socket_addr_v6 (Ipv6_Addr 0 0 0 0 0 0 0 0x123) 2 0 0"
  "sockaddr ''[FE80::A%1000]:50000'' = socket_addr_v6 (Ipv6_Addr 0xFE80 0 0 0 0 0 0 0xA) 50000 0 1000"
  "sockaddr ''[2001::B]:50000'' = socket_addr_v6 (Ipv6_Addr 0x2001 0 0 0 0 0 0 0xB) 50000 0 0"
  "ip ''FE80::A'' = Ipv6_Addr 0xFE80 0 0 0 0 0 0 0xA"
  "ip ''2001::B'' = Ipv6_Addr 0x2001 0 0 0 0 0 0 0xB"
  by (simp_all add: sockaddr_def ip_def parse_literal)

lemma request_answered_at:
  "show_sockaddr_v6 (socket_addr_v6 (Ipv6_Addr 0 0 0 0 0 0 0 0x123) 2 0 456 \<lparr>sa_port := 3\<rparr>) = ''[::123%456]:3''"
  by (simp add: show_literal)

lemma exec_answer:
  "exec (serve_handler (recording_response_sender r) service_port (packet, addr)) w =
     (Inr (), case answer service_port (packet, addr) of None \<Rightarrow> w
        | Some (a, response) \<Rightarrow> w\<lparr>trace := trace w @ [response_call response a]\<rparr>)"
  by (simp add: exec_serve_handler recording_response_sender_def split: option.split)

lemma fec_exec_replicate:
  assumes "answer service_port i = Some (a, response)"
  shows "fec_exec (serve_handler (recording_response_sender r) service_port)
      (map Yield (replicate n (Inr i)) @ evs) w =
    fec_exec (serve_handler (recording_response_sender r) service_port) evs
      (w\<lparr>trace := trace w @ replicate n (response_call response a)\<rparr>)"
  using assms
proof (induction n arbitrary: w)
  case (Suc n)
  then show ?case by (cases i) (simp add: exec_answer)
qed simp

lemmas scenario_defs = serve_exec_def serve_setup_def announce_def announce_to_ip_neighbors_def Let_def
  recording_udp_sender_def mock_udp_sender_def mock_scanner_def mock_ip_neighbor_scanner_def
  stream_iter_def one_shot_request_ending_with_dummy_error_def exec_simps map_ok_def map_err_def
  test_discovery_port_def dummy_error_def try_into_u16_def into_u32_def answer_def

lemma test_serve: "test_serve join_in_order encode w"
  unfolding test_serve_def
  by (simp add: literals scenario_defs exec_answer request_answered_at get_socket_address_def
      is_link_local_segment within_def)

lemma test_port_out_of_range: "test_port_out_of_range join_in_order encode w"
  unfolding test_port_out_of_range_def one_multicast_def
  by (simp add: literals scenario_defs exec_answer)

lemma test_invalid_discovery_port:
  "test_invalid_discovery_port join_all encode windows_rows linux_rows json_links w"
  by (simp add: test_invalid_discovery_port_def serve_def serve_setup_def exec_simps split: prod.split)

lemma test_failing_to_handle_packet:
  "test_failing_to_handle_packet_does_not_stop_serving join_in_order encode w"
  unfolding test_failing_to_handle_packet_does_not_stop_serving_def one_multicast_def
  by (simp add: literals scenario_defs exec_answer)

lemma test_handle_many_requests: "test_handle_many_requests join_in_order encode w"
  unfolding test_handle_many_requests_def one_multicast_def Let_def stream_iter_def map_append append_assoc
  by (simp add: literals scenario_defs fec_exec_replicate del: map_replicate)

text \<open>
  The assertion of the tests looks at the error only when it comes from the network: a server that
  failed to announce itself, or refused its port, passes as well.
\<close>

lemma assertion_accepts_other_errors:
  "assert_server_exits_with_dummy_error (Some (Inl e)) \<longleftrightarrow> (\<forall>n. e = Network_Io n \<longrightarrow> n = dummy_error)"
  by (cases e) auto

section \<open>Properties\<close>

text \<open>
  The server passes the unit tests of its source, in every world and with every encoding
  of packets: it announces itself to the addresses expected and to no other, answers a request at the
  collector expected, ignores a request whose port is out of range, goes on when an answer fails, answers
  each of 128 requests, and refuses discovery port 0. The assertion four of the tests end with is weaker than
  its message says: it holds of a server that has refused its port as well.
\<close>

theorem server_tests_pass:
  "test_serve join_in_order encode w \<and>
   test_port_out_of_range join_in_order encode w \<and>
   test_invalid_discovery_port join_in_order encode windows_rows linux_rows json_links w \<and>
   test_failing_to_handle_packet_does_not_stop_serving join_in_order encode w \<and>
   test_handle_many_requests join_in_order encode w \<and>
   assert_server_exits_with_dummy_error (Some (Inl Serve_Invalid_Discovery_Port))"
  using test_serve test_port_out_of_range test_invalid_discovery_port test_failing_to_handle_packet
    test_handle_many_requests by (simp add: assertion_accepts_other_errors)

end
