(* ===== verification/Test_Scanner.thy ===== *)
theory Test_Scanner
  imports Test_Support
begin

text \<open>The unit tests of \<^verbatim>\<open>main/src/scanner.rs\<close>.\<close>

text \<open>
  \<open>select_join\<close> and \<open>select_services\<close> are the merges of the two \<^verbatim>\<open>select\<close>s, \<open>encode\<close> the encoding of
  packets. A request the mocks do not expect fails the test: it is reported as an error of sending.
\<close>

definition checked :: "event list \<Rightarrow> world \<Rightarrow> (scan_error, unit) result task \<Rightarrow> (scan_error, unit) result option" where
  "checked expected w t =
     (case exec t w of
        (r, w') \<Rightarrow>
          if within expected (drop (length (trace w)) (trace w')) then Some r
          else Some (Inl (Send_Request dummy_error)))"

definition test_scan ::
  "((scan_error, service option) result observed \<Rightarrow> (scan_error, service option) result observed \<Rightarrow>
      (scan_error, service option) result observed) \<Rightarrow>
   ((scan_error, service) result observed \<Rightarrow> (scan_error, service) result observed \<Rightarrow>
      (scan_error, service) result observed) \<Rightarrow>
   (discovery_packet \<Rightarrow> byte list) \<Rightarrow> world \<Rightarrow> bool" where
  "test_scan select_join select_services encode w =
     (let expected_services = [\<lparr>address = sockaddr ''[::1]:1''\<rparr>, \<lparr>address = sockaddr ''[::2]:2''\<rparr>];
          announcement = packet_from_response \<lparr>res_service_port = 2\<rparr>;
          announcement_address = sockaddr ''[::2]:10'';
          discovery_packets = stream_once (Inr (announcement, announcement_address));
          discovery_ip = get_discovery_ip;
          discovery_port = 10;
          multicast_address = socket_addr_v6 discovery_ip discovery_port 0 0;
          request = \<lparr>req_response_collector_port = 100\<rparr>;
          packet_bytes = encode (packet_from_request request);
          ip_neighbors =
            [\<lparr>nb_address = ip ''fe80::1:abcd'', network_interface_index = 1\<rparr>,
             \<lparr>nb_address = ip ''fe80::2:abcd'', network_interface_index = 2\<rparr>];
          response_collector =
            \<lparr>get_port = ucast (req_response_collector_port request),
             collect = stream_once (Inr (expected_services ! 0))\<rparr>;
          expected =
            [multicast_call multicast_address packet_bytes,
             unicast_call (sockaddr ''[fe80::1:abcd%1]:10'') packet_bytes,
             unicast_call (sockaddr ''[fe80::2:abcd%2]:10'') packet_bytes];
          udp_receiver = (\<lambda>multicast_ip port.
            if multicast_ip = discovery_ip \<and> port = discovery_port then discovery_packets
            else stream_once (Inl dummy_error));
          actual_services = collect_results (take 3 (items
            (scan_internal select_join select_services (checked expected w) encode (sa_port multicast_address)
               response_collector recording_udp_sender udp_receiver (mock_scanner ip_neighbors))))
      in actual_services = Inr expected_services)"

definition test_scan_invalid_discovery_port :: "scan_runtime \<Rightarrow> bool" where
  "test_scan_invalid_discovery_port rt =
     (collect_results (items (scan rt 0)) = Inl Scan_Invalid_Discovery_Port)"

section \<open>They pass\<close>

lemma scan_literals:
  "sockaddr ''[::1]:1'' = socket_addr_v6 (Ipv6_Addr 0 0 0 0 0 0 0 1) 1 0 0"
  "sockaddr ''[::2]:2'' = socket_addr_v6 (Ipv6_Addr 0 0 0 0 0 0 0 2) 2 0 0"
  "sockaddr ''[::2]:10'' = socket_addr_v6 (Ipv6_Addr 0 0 0 0 0 0 0 2) 10 0 0"
  "sockaddr ''[fe80::1:abcd%1]:10'' = socket_addr_v6 (Ipv6_Addr 0xFE80 0 0 0 0 0 1 0xABCD) 10 0 1"
  "sockaddr ''[fe80::2:abcd%2]:10'' = socket_addr_v6 (Ipv6_Addr 0xFE80 0 0 0 0 0 2 0xABCD) 10 0 2"
  "ip ''fe80::1:abcd'' = Ipv6_Addr 0xFE80 0 0 0 0 0 1 0xABCD"
  "ip ''fe80::2:abcd'' = Ipv6_Addr 0xFE80 0 0 0 0 0 2 0xABCD"
  by (simp_all add: sockaddr_def ip_def parse_literal)

lemma join_with_success:
  assumes "stream_select select"
  shows "items (join select id id (Some (Inr u)) s) = items s"
proof -
  have "map (map_err id) rs = rs" for rs :: "('a, 'b) result list"
    by (rule map_idI) (simp add: map_err_def split: sum.split)
  then show ?thesis
    using join_shuffles [OF assms, of id id "Some (Inr u)" s] by (simp add: future_error_def)
qed

lemma requests_as_expected:
  assumes "packet_bytes = encode (packet_from_request \<lparr>req_response_collector_port = 100\<rparr>)"
  shows "checked
     [multicast_call (socket_addr_v6 get_discovery_ip 10 0 0) packet_bytes,
      unicast_call (sockaddr ''[fe80::1:abcd%1]:10'') packet_bytes,
      unicast_call (sockaddr ''[fe80::2:abcd%2]:10'') packet_bytes] w
     (send_requests encode recording_udp_sender
        (mock_scanner
          [\<lparr>nb_address = ip ''fe80::1:abcd'', network_interface_index = 1\<rparr>,
           \<lparr>nb_address = ip ''fe80::2:abcd'', network_interface_index = 2\<rparr>])
        \<lparr>req_response_collector_port = 100\<rparr> 10) = Some (Inr ())"
  by (simp add: assms checked_def send_requests_def recording_udp_sender_def mock_scanner_def scan_literals
      exec_simps Let_def get_socket_address_def is_link_local_segment within_def)

text \<open>The order expected is that of a \<^verbatim>\<open>select\<close> that asks its first stream first.\<close>

lemma test_scan:
  assumes "stream_select select_join"
  shows "test_scan select_join (scheduled_select (True # sch)) encode w"
  unfolding test_scan_def Let_def scan_internal_def
  by (simp add: join_with_success [OF assms] requests_as_expected [OF refl, unfolded scan_literals] into_u32_def scheduled_select_def
      scan_literals receive_announcements_items announcement_item_def announced_def List.map_filter_simps
      try_into_u16_def result_simps)

lemma test_scan_invalid_discovery_port:
  assumes "sr_observe_collector rt new_response_collector = Some (Inr c)"
    and "sr_observe_scanner rt
      (find_ip_neighbor_scanner (sr_windows_rows rt) (sr_linux_rows rt) (sr_json_links rt)) = Some s"
  shows "test_scan_invalid_discovery_port rt"
  using assms
  by (simp add: test_scan_invalid_discovery_port_def scan_def try_join_setup_def scan_internal_def)

section \<open>Properties\<close>

text \<open>
  The scanner passes the unit tests of its source, with every encoding of packets, in
  every world: it sends its request to the addresses expected and to no other, finds the service collected and
  the service announced, in the order of a select that asks its first stream first, and, once it has a
  collector, refuses discovery port 0.
\<close>

theorem scanner_tests_pass:
  assumes "stream_select select_join"
    and "sr_observe_collector rt new_response_collector = Some (Inr c)"
    and "sr_observe_scanner rt
      (find_ip_neighbor_scanner (sr_windows_rows rt) (sr_linux_rows rt) (sr_json_links rt)) = Some s"
  shows "test_scan select_join (scheduled_select (True # sch)) encode w \<and> test_scan_invalid_discovery_port rt"
  using test_scan [OF assms(1)] test_scan_invalid_discovery_port [OF assms(2,3)] by blast

theorem scanner_tests_pass_witness:
  "test_scan (scheduled_select []) (scheduled_select [True]) encode_packet fresh_world \<and>
   test_scan_invalid_discovery_port example_runtime"
proof -
  obtain c where c: "fst (exec new_response_collector fresh_world) = Inr c"
    by (simp add: new_response_collector_def call_defs exec_simps fresh_world_defs Let_def)
  show ?thesis
    by (rule scanner_tests_pass [OF scheduled.stream_select_axioms]) (simp_all add: example_runtime_def c)
qed

end
