(* ===== verification/Test_Collector.thy ===== *)
theory Test_Collector
  imports Test_Support
begin

text \<open>
  The unit tests of \<^verbatim>\<open>main/src/response_collector.rs\<close>. The transport between a sender and the
  collector of the same host is the loopback interface: what is submitted to the collector's own
  address reaches it, from \<^verbatim>\<open>[::1]\<close> and a port of the system's choice.
\<close>

section \<open>A collector over the loopback interface\<close>

definition test_response_collector_port_must_not_be_0 :: "world \<Rightarrow> bool" where
  "test_response_collector_port_must_not_be_0 w =
     (case exec new_response_collector w of
        (Inr c, _) \<Rightarrow> grc_port c \<noteq> 0
      | _ \<Rightarrow> False)"

text \<open>The helper \<^verbatim>\<open>submit_responses\<close>.\<close>

fun submit_each :: "string \<Rightarrow> response list \<Rightarrow> (anyhow_error, unit) result task" where
  "submit_each response_collector_address [] = Ret (Inr ())"
| "submit_each response_collector_address (response # rest) =
     try_await id (grpc_send response response_collector_address) (\<lambda>_.
     submit_each response_collector_address rest)"

definition loopback_collector_address :: "u16 \<Rightarrow> string" where
  "loopback_collector_address port = ''http://[::1]:'' @ show_radix 10 (unat port)"

definition submit_responses :: "u16 \<Rightarrow> response list \<Rightarrow> (anyhow_error, unit) result task" where
  "submit_responses port rs =
     (let response_collector_address = loopback_collector_address port
      in submit_each response_collector_address rs)"

definition loopback ::
  "sockaddr_v6 \<Rightarrow> string \<Rightarrow> (string \<times> response) list \<Rightarrow> (socket_addr option \<times> response) list" where
  "loopback from collector delivered =
     map (\<lambda>(_, r). (Some (V6 from), r)) (filter (\<lambda>(a, _). a = collector) delivered)"

text \<open>\<^verbatim>\<open>take\<close> of a stream.\<close>

definition stream_take :: "nat \<Rightarrow> 'a observed \<Rightarrow> 'a observed" where
  "stream_take n s = Observed (take n (items s)) (n \<le> length (items s) \<or> ended s)"

definition test_collect ::
  "((transport_error, service option) result observed \<Rightarrow> (transport_error, service option) result observed \<Rightarrow>
      (transport_error, service option) result observed) \<Rightarrow>
   ((anyhow_error, service option) result observed \<Rightarrow> (anyhow_error, service option) result observed \<Rightarrow>
      (anyhow_error, service option) result observed) \<Rightarrow> u16 \<Rightarrow> world \<Rightarrow> bool" where
  "test_collect select select_join from_port w =
     (case exec new_response_collector w of
        (Inr collector, w1) \<Rightarrow>
          (let port = grc_port collector;
               rs = [\<lparr>res_service_port = 1\<rparr>, \<lparr>res_service_port = 2\<rparr>];
               (submitted, w2) = exec (submit_responses port rs) w1;
               submissions = loopback (socket_addr_v6 localhost from_port 0 0)
                 (loopback_collector_address port)
                 (concat (map delivered_response (drop (length (trace w1)) (trace w2))));
               collected = stream_take 2 (collect (grpc_response_collector_of select None submissions False collector));
               services = collect_results (items (join select_join id Anyhow_Transport (Some submitted) collected))
           in services = Inr [\<lparr>address = sockaddr ''[::1]:1''\<rparr>, \<lparr>address = sockaddr ''[::1]:2''\<rparr>])
      | _ \<Rightarrow> False)"

section \<open>A service provider on its own\<close>

text \<open>Its channel has lost the receiving half, which the helper drops at once.\<close>

definition new_response_collector_service_provider :: "service channel" where
  "new_response_collector_service_provider = \<lparr>ch_queue = [], ch_receiver_alive = False\<rparr>"

text \<open>The message of the status a submission is refused with.\<close>

definition refused_with :: "socket_addr option \<Rightarrow> response \<Rightarrow> string \<Rightarrow> bool" where
  "refused_with remote_address request message =
     (case submit_response channel_send remote_address request new_response_collector_service_provider of
        (Inl status, _) \<Rightarrow> status_message status = message
      | (Inr _, _) \<Rightarrow> False)"

definition test_remote_address_unavailable :: bool where
  "test_remote_address_unavailable =
     refused_with None \<lparr>res_service_port = 1\<rparr> ''Remote address unavailable''"

definition test_ipv4_unsupported :: bool where
  "test_ipv4_unsupported =
     refused_with (Some (V4 \<lparr>sa4_ip = Ipv4_Addr 1 1 1 1, sa4_port = 1\<rparr>)) \<lparr>res_service_port = 1\<rparr>
       ''IPv4 unsupported''"

definition test_submitted_port_out_of_range :: bool where
  "test_submitted_port_out_of_range =
     refused_with (Some (V6 (sockaddr ''[::1]:1''))) \<lparr>res_service_port = 100000\<rparr> ''Port out of range''"

definition test_port_must_not_be_0 :: bool where
  "test_port_must_not_be_0 =
     refused_with (Some (V6 (sockaddr ''[::1]:1''))) \<lparr>res_service_port = 0\<rparr> ''Port must not be 0''"

definition test_unavailable :: bool where
  "test_unavailable =
     refused_with (Some (V6 (sockaddr ''[::1]:1''))) \<lparr>res_service_port = 1\<rparr> ''No longer accepting responses''"

section \<open>They pass\<close>

lemma loopback_literals:
  "sockaddr ''[::1]:1'' = socket_addr_v6 localhost 1 0 0"
  "sockaddr ''[::1]:2'' = socket_addr_v6 localhost 2 0 0"
  by (simp_all add: sockaddr_def parse_literal localhost_def)

lemma provider_tests:
  "test_remote_address_unavailable" "test_ipv4_unsupported" "test_submitted_port_out_of_range"
  "test_port_must_not_be_0" "test_unavailable"
  by (simp_all add: test_remote_address_unavailable_def test_ipv4_unsupported_def
      test_submitted_port_out_of_range_def test_port_must_not_be_0_def test_unavailable_def refused_with_def
      submit_response_def new_response_collector_service_provider_def channel_send_def try_into_u16_def
      invalid_argument_def unimplemented_def unavailable_def)

text \<open>A host on which listening, connecting and submitting over the loopback interface succeed.\<close>

definition loopback_works :: "u16 \<Rightarrow> world \<Rightarrow> bool" where
  "loopback_works port w \<longleftrightarrow>
     (\<forall>tr. \<exists>l. os_tcp_bind (os w) tr wildcard_addr = Inr l) \<and>
     (\<forall>tr l. \<exists>a. os_tcp_local_addr (os w) tr l = Inr a \<and> sa_port a = port) \<and>
     (\<forall>tr a. \<exists>n. os_connect (os w) tr a = Inr n) \<and> (\<forall>tr c r. os_submit (os w) tr c r = Inr ())"

lemma loopback_collector:
  assumes "loopback_works port w"
  obtains collector w' where "exec new_response_collector w = (Inr collector, w')" "grc_port collector = port"
    "grc_channel collector = \<lparr>ch_queue = [], ch_receiver_alive = True\<rparr>" "os w' = os w"
proof -
  obtain l where l: "os_tcp_bind (os w) (trace w) wildcard_addr = Inr l"
    using assms unfolding loopback_works_def by blast
  obtain a where a: "os_tcp_local_addr (os w) (trace w @ [Ev_Tcp_Bind wildcard_addr (Inr l)]) l = Inr a"
    "sa_port a = port" using assms unfolding loopback_works_def by blast
  obtain collector where run: "exec new_response_collector w = (Inr collector,
      w\<lparr>trace := trace w @ [Ev_Tcp_Bind wildcard_addr (Inr l), Ev_Tcp_Local_Addr l (Inr a)]\<rparr>)"
    and "grc_port collector = port" "grc_channel collector = \<lparr>ch_queue = [], ch_receiver_alive = True\<rparr>"
    using l a by (simp add: new_response_collector_def call_defs exec_simps Let_def)
  then show ?thesis by (intro that [OF run]) simp_all
qed

lemma exec_submit_each:
  assumes "\<forall>tr a. \<exists>n. os_connect (os w) tr a = Inr n" and "\<forall>tr c r. os_submit (os w) tr c r = Inr ()"
  shows "\<exists>w' es. exec (submit_each a rs) w = (Inr (), w') \<and> trace w' = trace w @ es \<and>
    concat (map delivered_response es) = map (Pair a) rs"
  using assms
proof (induction rs arbitrary: w)
  case (Cons r rs)
  obtain n where n: "os_connect (os w) (trace w) a = Inr n" using Cons.prems by blast
  let ?es = "[Ev_Connect a (Inr (a, n)), Ev_Submit (a, n) r (Inr ())]"
  let ?w = "w\<lparr>trace := trace w @ ?es\<rparr>"
  have "exec (grpc_send r a) w = (Inr (), ?w)"
    using n Cons.prems(2) by (simp add: grpc_send_def call_defs exec_simps map_ok_def)
  moreover obtain w' es where "exec (submit_each a rs) ?w = (Inr (), w')" "trace w' = trace ?w @ es"
    "concat (map delivered_response es) = map (Pair a) rs"
    using Cons.IH [of ?w] Cons.prems by auto
  ultimately show ?case by (intro exI [of _ w'] exI [of _ "?es @ es"]) (simp add: exec_simps)
qed simp

lemma collected_over_loopback:
  assumes "stream_select select" and "stream_select select_join"
    and "services = Observed ss False"
  shows "items (join select_join id Anyhow_Transport (Some (Inr ())) (stream_take (length ss)
    (grpc_collect select None services))) = map Inr ss"
proof -
  have "items (grpc_collect select None services) = map Inr ss"
    using join_shuffles [OF assms(1), of id id None "stream_map Inr services"] assms(3)
    by (simp add: grpc_collect_def future_error_def map_err_def o_def)
  then show ?thesis
    using join_shuffles [OF assms(2), of id Anyhow_Transport "Some (Inr ())"
        "stream_take (length ss) (grpc_collect select None services)"]
    by (simp add: stream_take_def future_error_def map_err_def o_def)
qed

lemma test_collect:
  assumes "stream_select select" and "stream_select select_join" and "loopback_works port w"
  shows "test_collect select select_join from_port w"
proof -
  obtain c w1 where c: "exec new_response_collector w = (Inr c, w1)" "grc_port c = port"
    "grc_channel c = \<lparr>ch_queue = [], ch_receiver_alive = True\<rparr>" "os w1 = os w"
    using loopback_collector [OF assms(3)] .
  let ?a = "loopback_collector_address port"
  let ?rs = "[\<lparr>res_service_port = 1\<rparr>, \<lparr>res_service_port = 2\<rparr>]"
  have "\<forall>tr a. \<exists>n. os_connect (os w1) tr a = Inr n" "\<forall>tr c r. os_submit (os w1) tr c r = Inr ()"
    using assms(3) c(4) by (simp_all add: loopback_works_def)
  from exec_submit_each [OF this] obtain w2 es where w2: "exec (submit_each ?a ?rs) w1 = (Inr (), w2)"
    "trace w2 = trace w1 @ es" "concat (map delivered_response es) = map (Pair ?a) ?rs" by blast
  let ?subs = "loopback (socket_addr_v6 localhost from_port 0 0) ?a (map (Pair ?a) ?rs)"
  let ?ss = "[\<lparr>address = socket_addr_v6 localhost 1 0 0\<rparr>, \<lparr>address = socket_addr_v6 localhost 2 0 0\<rparr>]"
  have "received_services ?subs False c = Observed ?ss False"
    by (simp add: received_services_def loopback_def submit_response_def channel_send_def c(3)
        try_into_u16_def)
  from collected_over_loopback [OF assms(1,2) this]
  have "items (join select_join id Anyhow_Transport (Some (Inr ()))
      (stream_take 2 (grpc_collect select None (received_services ?subs False c)))) = map Inr ?ss"
    by (simp add: eval_nat_numeral)
  then have "collect_results (items (join select_join id Anyhow_Transport (Some (Inr ()))
      (stream_take 2 (grpc_collect select None (received_services ?subs False c))))) = Inr ?ss"
    by (simp only: collect_results_map_Inr)
  then show ?thesis
    using c(1,2) w2
    by (simp add: test_collect_def submit_responses_def grpc_response_collector_of_def
        loopback_literals del: submit_each.simps)
qed

section \<open>Properties\<close>

text \<open>
  The response collector passes the unit tests of its source: on a host whose
  loopback interface works and gives listeners a port, two responses sent to a new collector are
  collected, in order, as services at the loopback address; and each kind of submission that must be
  refused is refused with the expected message.
\<close>

theorem collector_tests_pass:
  assumes "stream_select select" and "stream_select select_join"
    and "loopback_works port w" and "port \<noteq> 0"
  shows "test_response_collector_port_must_not_be_0 w \<and> test_collect select select_join from_port w \<and>
    test_remote_address_unavailable \<and> test_ipv4_unsupported \<and> test_submitted_port_out_of_range \<and>
    test_port_must_not_be_0 \<and> test_unavailable"
proof -
  obtain c w1 where "exec new_response_collector w = (Inr c, w1)" "grc_port c = port"
    using loopback_collector [OF assms(3)] .
  then have "test_response_collector_port_must_not_be_0 w"
    using assms(4) by (simp add: test_response_collector_port_must_not_be_0_def)
  then show ?thesis using test_collect [OF assms(1-3)] provider_tests by blast
qed

theorem collector_tests_pass_witness:
  "test_response_collector_port_must_not_be_0 fresh_world \<and>
   test_collect (scheduled_select []) (scheduled_select [False]) 50001 fresh_world \<and> test_unavailable"
  using collector_tests_pass [OF scheduled.stream_select_axioms scheduled.stream_select_axioms,
      of 4000 fresh_world "[]" "[False]" 50001]
  by (simp add: loopback_works_def fresh_world_defs)

end
