(* ===== verification/Test_Network.thy ===== *)
theory Test_Network
  imports Test_Support
begin

text \<open>
  The unit tests of \<^verbatim>\<open>main/src/network\<close>, \<^verbatim>\<open>main/src/process.rs\<close> and \<^verbatim>\<open>protocol/rust/src/lib.rs\<close>. The
  tests that call programs of the operating system run in a world given as an argument; those of
  \<^verbatim>\<open>process.rs\<close> that run PowerShell are left out.
\<close>

section \<open>Text\<close>

definition bytes_of :: "string \<Rightarrow> byte list" where
  "bytes_of s = map (\<lambda>c. of_nat (of_char c)) s"

definition is_space :: "char \<Rightarrow> bool" where
  "is_space c \<longleftrightarrow> c \<in> {CHR '' '', CHR 0x09, CHR 0x0A, CHR 0x0B, CHR 0x0C, CHR 0x0D}"

definition trim :: "string \<Rightarrow> string" where
  "trim s = rev (dropWhile is_space (rev (dropWhile is_space s)))"

definition in_lines :: "string list \<Rightarrow> string" where
  "in_lines ls = concat (map (\<lambda>l. CHR 0x0A # l) ls)"

section \<open>Neighbours\<close>

definition test_find_scanner ::
  "(byte list \<Rightarrow> (csv_error, net_neighbor) result list) \<Rightarrow>
   (byte list \<Rightarrow> (csv_error, linux_neighbor) result list) \<Rightarrow>
   (byte list \<Rightarrow> (json_error, link list) result) \<Rightarrow> world \<Rightarrow> bool" where
  "test_find_scanner windows_rows linux_rows json_links w =
     (case exec (task_bind (find_ip_neighbor_scanner windows_rows linux_rows json_links) scan_neighbors) w of
        (Inr _, _) \<Rightarrow> True
      | (Inl _, _) \<Rightarrow> False)"

definition test_get_socket_address_unicast :: bool where
  "test_get_socket_address_unicast =
     (let neighbor = \<lparr>nb_address = ip ''2001::1'', network_interface_index = 123\<rparr>;
          port = 10;
          expected_address = sockaddr ''[2001::1]:10'';
          actual_address = get_socket_address neighbor port
      in actual_address = expected_address)"

definition test_get_socket_address_link_local :: bool where
  "test_get_socket_address_link_local =
     (let neighbor = \<lparr>nb_address = ip ''FE80::1'', network_interface_index = 123\<rparr>;
          port = 10;
          expected_address = sockaddr ''[FE80::1%123]:10'';
          actual_address = get_socket_address neighbor port
      in actual_address = expected_address)"

text \<open>Both platform scanners are scanned with where the system supports them, and skipped elsewhere.\<close>

definition test_scan_if_supported :: "ip_neighbor_scanner \<Rightarrow> world \<Rightarrow> bool" where
  "test_scan_if_supported scanner w =
     (case exec (supports_current_operating_system scanner) w of
        (False, _) \<Rightarrow> True
      | (True, w') \<Rightarrow> \<not> isl (fst (exec (scan_neighbors scanner) w')))"

definition test_linux_scan ::
  "(byte list \<Rightarrow> (csv_error, linux_neighbor) result list) \<Rightarrow>
   (byte list \<Rightarrow> (json_error, link list) result) \<Rightarrow> world \<Rightarrow> bool" where
  "test_linux_scan csv_rows json_links w = test_scan_if_supported (linux_scanner csv_rows json_links) w"

definition test_windows_scan ::
  "(byte list \<Rightarrow> (csv_error, net_neighbor) result list) \<Rightarrow> world \<Rightarrow> bool" where
  "test_windows_scan csv_rows w = test_scan_if_supported (windows_scanner csv_rows) w"

text \<open>The texts of the parser tests, and the neighbours both of them expect.\<close>

definition ip_neighbor_output :: "byte list" where
  "ip_neighbor_output = bytes_of (trim (in_lines
     [''fe80::1:abcd dev wlan0 lladdr 00:00:00:00:00:01 router REACHABLE'',
      ''fe80::2:abcd dev eth0 lladdr 00:00:00:00:00:02 router STALE'',
      ''fe80::3:abcd dev wlan2 lladdr 00:00:00:00:00:03 router STALE'',
      ''ff02::4:abcd dev wlan0 lladdr 00:00:00:00:00:04 router REACHABLE'',
      ''fe80::5:abcd dev wlan0 lladdr 00:00:00:00:00:05 router FAILED'',
      ''        '']))"

definition ip_link_output :: "byte list" where
  \<open>ip_link_output = bytes_of (in_lines
     [''        ['',
      ''          {'',
      ''            "ifindex": 1,'',
      ''            "ifname": "wlan0",'',
      ''            "mtu": 1500'',
      ''          },'',
      ''          {'',
      ''            "ifindex": 2,'',
      ''            "ifname": "eth0",'',
      ''            "mtu": 1500'',
      ''          }'',
      ''        ]'',
      ''        ''])\<close>

definition net_neighbor_output :: "byte list" where
  \<open>net_neighbor_output = bytes_of (trim (in_lines
     [''"InterfaceIndex","IPAddress","State"'',
      ''"1","fe80::1:abcd","Reachable"'',
      ''"2","fe80::2:abcd","Permanent"'',
      ''"3","fe80::3:abcd","Unreachable"'',
      ''"4","ff02::4:abcd","Reachable"'',
      ''        '']))\<close>

definition expected_neighbors :: "ip_neighbor list" where
  "expected_neighbors =
     [\<lparr>nb_address = ip ''fe80::1:abcd'', network_interface_index = 1\<rparr>,
      \<lparr>nb_address = ip ''fe80::2:abcd'', network_interface_index = 2\<rparr>]"

definition test_linux_parse_output ::
  "(byte list \<Rightarrow> (csv_error, linux_neighbor) result list) \<Rightarrow>
   (byte list \<Rightarrow> (json_error, link list) result) \<Rightarrow> bool" where
  "test_linux_parse_output csv_rows json_links =
     (linux_parse_output csv_rows json_links ip_link_output ip_neighbor_output = Inr expected_neighbors)"

definition test_windows_parse_output :: "(byte list \<Rightarrow> (csv_error, net_neighbor) result list) \<Rightarrow> bool" where
  "test_windows_parse_output csv_rows =
     (windows_parse_output csv_rows net_neighbor_output = Inr expected_neighbors)"

section \<open>Processes\<close>

text \<open>
  Of the tests of \<^verbatim>\<open>process.rs\<close>, the one that does not run PowerShell, whose behaviour is not the program's.
\<close>

definition test_probe_non_existing_command :: "world \<Rightarrow> bool" where
  "test_probe_non_existing_command w = (\<not> fst (exec (probe ''__some_unknown_command__'' [''--version'']) w))"

section \<open>Datagrams and packets\<close>

definition test_send_multicast :: "world \<Rightarrow> bool" where
  "test_send_multicast w =
     (let addr = socket_addr_v6 get_discovery_ip 1 0 0
      in \<not> isl (fst (exec (tokio_send_multicast addr [1]) w)))"

definition test_send_unicast :: "world \<Rightarrow> bool" where
  "test_send_unicast w =
     (let addr = socket_addr_v6 localhost 1 0 0
      in \<not> isl (fst (exec (tokio_send_unicast addr [1]) w)))"

definition test_decode_request :: "(request \<Rightarrow> byte list) \<Rightarrow> request message_decoder \<Rightarrow> bool" where
  "test_decode_request encode decode =
     (let request = \<lparr>req_response_collector_port = 1\<rparr>;
          bytes = encode request;
          actual_request = fst (protobuf_decode decode bytes)
      in actual_request = Inr (Some request))"

definition test_decode_empty_request :: "request message_decoder \<Rightarrow> bool" where
  "test_decode_empty_request decode = (fst (protobuf_decode decode []) = Inr None)"

section \<open>They pass\<close>

lemma network_literals:
  "ip ''2001::1'' = Ipv6_Addr 0x2001 0 0 0 0 0 0 1"
  "ip ''FE80::1'' = Ipv6_Addr 0xFE80 0 0 0 0 0 0 1"
  "sockaddr ''[2001::1]:10'' = socket_addr_v6 (Ipv6_Addr 0x2001 0 0 0 0 0 0 1) 10 0 0"
  "sockaddr ''[FE80::1%123]:10'' = socket_addr_v6 (Ipv6_Addr 0xFE80 0 0 0 0 0 0 1) 10 0 123"
  "ip ''fe80::1:abcd'' = Ipv6_Addr 0xFE80 0 0 0 0 0 1 0xABCD"
  "ip ''fe80::2:abcd'' = Ipv6_Addr 0xFE80 0 0 0 0 0 2 0xABCD"
  by (simp_all add: sockaddr_def ip_def parse_literal)

lemma socket_address_tests:
  "test_get_socket_address_unicast" "test_get_socket_address_link_local"
  by (simp_all add: test_get_socket_address_unicast_def test_get_socket_address_link_local_def
      network_literals get_socket_address_def is_link_local_segment)

text \<open>The rows of the PowerShell test.\<close>

definition net_neighbor_rows :: "net_neighbor list" where
  "net_neighbor_rows =
     [\<lparr>nn_interface_index = 1, nn_ip_address = Ipv6_Addr 0xFE80 0 0 0 0 0 1 0xABCD, nn_state = ''Reachable''\<rparr>,
      \<lparr>nn_interface_index = 2, nn_ip_address = Ipv6_Addr 0xFE80 0 0 0 0 0 2 0xABCD, nn_state = ''Permanent''\<rparr>,
      \<lparr>nn_interface_index = 3, nn_ip_address = Ipv6_Addr 0xFE80 0 0 0 0 0 3 0xABCD, nn_state = ''Unreachable''\<rparr>,
      \<lparr>nn_interface_index = 4, nn_ip_address = Ipv6_Addr 0xFF02 0 0 0 0 0 4 0xABCD, nn_state = ''Reachable''\<rparr>]"

lemma test_linux_parse_output:
  assumes "csv_rows ip_neighbor_output = map Inr example_rows" and "json_links ip_link_output = Inr example_links"
  shows "test_linux_parse_output csv_rows json_links"
  using example_parse
  by (simp add: test_linux_parse_output_def linux_parse_output_def assms expected_neighbors_def network_literals)

lemma test_windows_parse_output:
  assumes "csv_rows net_neighbor_output = map Inr net_neighbor_rows"
  shows "test_windows_parse_output csv_rows"
  unfolding test_windows_parse_output_def windows_parse_output_def assms collect_results_map_Inr
  by (simp add: result_simps net_neighbor_rows_def expected_neighbors_def network_literals ip_neighbor_from_def
      is_valid_ip_def is_loopback_def is_unspecified_def localhost_def unspecified_def is_multicast_def)

text \<open>
  A system that can start no program, and one whose programs all succeed with output that the readers
  accept.
\<close>

definition no_programs :: "world \<Rightarrow> bool" where
  "no_programs w \<longleftrightarrow> (\<forall>tr c. isl (os_spawn (os w) tr c))"

definition programs_work :: "world \<Rightarrow> bool" where
  "programs_work w \<longleftrightarrow>
     (\<forall>tr c. \<exists>p i out. os_spawn (os w) tr c = Inr \<lparr>child_pid = p, child_stdin = Some i, child_stdout = Some out\<rparr>) \<and>
     (\<forall>tr h d. os_write_all (os w) tr h d = Inr ()) \<and> (\<forall>tr p. os_wait (os w) tr p = Inr True) \<and>
     (\<forall>tr s. \<exists>out. os_read_to_end (os w) tr s = Inr out)"

lemma exec_no_programs:
  assumes "no_programs w"
  shows "\<exists>e. exec (probe command args) w =
    (False, w\<lparr>trace := trace w @ [Ev_Spawn (probe_command command args) (Inl e)]\<rparr>)"
proof -
  obtain e where "os_spawn (os w) (trace w) (probe_command command args) = Inl e"
    using assms unfolding no_programs_def by (metis isl_def)
  then show ?thesis by (intro exI [of _ e]) (simp add: probe_def call_defs exec_simps)
qed

lemma test_probe_non_existing_command: "no_programs w \<Longrightarrow> test_probe_non_existing_command w"
  using exec_no_programs [of w "''__some_unknown_command__''" "[''--version'']"]
  by (auto simp: test_probe_non_existing_command_def)

lemma trace_extended [simp]: "\<exists>es. w\<lparr>trace := trace w @ xs\<rparr> = w\<lparr>trace := trace w @ es\<rparr>"
  by blast

lemma exec_programs_work:
  assumes "programs_work w"
  shows "\<exists>es. exec (probe command args) w = (True, w\<lparr>trace := trace w @ es\<rparr>)"
    and "\<exists>out es. exec (run command args) w = (Inr out, w\<lparr>trace := trace w @ es\<rparr>)"
    and "\<exists>out es. exec (eval command args inp) w = (Inr out, w\<lparr>trace := trace w @ es\<rparr>)"
proof -
  have spawn: "\<exists>p i out. os_spawn (os w) tr c = Inr \<lparr>child_pid = p, child_stdin = Some i, child_stdout = Some out\<rparr>"
    and read: "\<exists>out. os_read_to_end (os w) tr s = Inr out"
    and works: "os_write_all (os w) tr h d = Inr ()" "os_wait (os w) tr p = Inr True" for tr c s h d p
    using assms by (auto simp: programs_work_def)
  obtain p i out where "os_spawn (os w) (trace w) (probe_command command args) =
      Inr \<lparr>child_pid = p, child_stdin = Some i, child_stdout = Some out\<rparr>" using spawn by blast
  then show "\<exists>es. exec (probe command args) w = (True, w\<lparr>trace := trace w @ es\<rparr>)"
    by (simp add: probe_def call_defs exec_simps works)
  obtain p i out where c: "os_spawn (os w) (trace w) (run_command command args) =
      Inr \<lparr>child_pid = p, child_stdin = Some i, child_stdout = Some out\<rparr>" using spawn by blast
  obtain r where "os_read_to_end (os w) (trace w @ [Ev_Spawn (run_command command args)
      (Inr \<lparr>child_pid = p, child_stdin = Some i, child_stdout = Some out\<rparr>), Ev_Wait p (Inr True)]) out = Inr r"
    using read by blast
  with c show "\<exists>out es. exec (run command args) w = (Inr out, w\<lparr>trace := trace w @ es\<rparr>)"
    by (simp add: run_def read_stdout_def call_defs exec_simps works)
  obtain p i out where c: "os_spawn (os w) (trace w) (eval_command command args) =
      Inr \<lparr>child_pid = p, child_stdin = Some i, child_stdout = Some out\<rparr>" using spawn by blast
  obtain r where "os_read_to_end (os w) (trace w @ [Ev_Spawn (eval_command command args)
      (Inr \<lparr>child_pid = p, child_stdin = Some i, child_stdout = Some out\<rparr>), Ev_Write_All i inp (Inr ()),
      Ev_Close i, Ev_Wait p (Inr True)]) out = Inr r"
    using read by blast
  with c show "\<exists>out es. exec (eval command args inp) w = (Inr out, w\<lparr>trace := trace w @ es\<rparr>)"
    by (simp add: eval_def read_stdout_def call_defs exec_simps works)
qed

lemma programs_work_extend: "programs_work (w\<lparr>trace := tr\<rparr>) \<longleftrightarrow> programs_work w"
  by (simp add: programs_work_def)

lemma windows_scan_works:
  assumes "programs_work w" and "\<And>out. \<exists>rows. csv_rows out = map Inr rows"
  shows "\<exists>ns w'. exec (windows_scan csv_rows) w = (Inr ns, w')"
proof -
  obtain out es where "exec (eval ''pwsh'' [''-Command'', ''-''] print_ip_neighbors_ps1) w
      = (Inr out, w\<lparr>trace := trace w @ es\<rparr>)"
    using exec_programs_work(3) [OF assms(1)] by blast
  moreover obtain rows where "csv_rows out = map Inr rows" using assms(2) by blast
  ultimately show ?thesis
    by (simp add: windows_scan_def windows_parse_output_def exec_simps result_simps)
qed

lemma linux_scan_works:
  assumes "programs_work w" and "\<And>out. \<exists>rows. csv_rows out = map Inr rows"
    and "\<And>out. \<exists>links. json_links out = Inr links"
  shows "\<exists>ns w'. exec (linux_scan csv_rows json_links) w = (Inr ns, w')"
proof -
  obtain lk es where "exec (run ''ip'' [''-json'', ''link'']) w = (Inr lk, w\<lparr>trace := trace w @ es\<rparr>)"
    using exec_programs_work(2) [OF assms(1)] by blast
  moreover obtain nb w2 where
    "exec (run ''ip'' [''-family'', ''inet6'', ''neighbor'']) (w\<lparr>trace := trace w @ es\<rparr>) = (Inr nb, w2)"
    using exec_programs_work(2) [OF programs_work_extend [THEN iffD2, OF assms(1)]] by blast
  moreover obtain rows where "csv_rows nb = map Inr rows" using assms(2) by blast
  moreover obtain links where "json_links lk = Inr links" using assms(3) by blast
  ultimately show ?thesis
    by (simp add: linux_scan_def linux_parse_output_def exec_simps result_simps)
qed

lemma scan_tests:
  assumes "no_programs w \<or> programs_work w \<and> (\<forall>out. \<exists>rows. windows_rows out = map Inr rows) \<and>
    (\<forall>out. \<exists>rows. linux_rows out = map Inr rows) \<and> (\<forall>out. \<exists>links. json_links out = Inr links)"
  shows "test_find_scanner windows_rows linux_rows json_links w" "test_linux_scan linux_rows json_links w"
    "test_windows_scan windows_rows w"
proof -
  let ?pwsh = "probe ''pwsh'' [''-Command'', ''Get-Command Get-NetNeighbor'']"
  let ?ip = "probe ''ip'' [''-Version'']"
  show "test_find_scanner windows_rows linux_rows json_links w"
    using assms
  proof
    assume none: "no_programs w"
    then obtain e where "exec ?pwsh w = (False, w\<lparr>trace := trace w @ [e]\<rparr>)"
      using exec_no_programs by blast
    moreover have "no_programs (w\<lparr>trace := trace w @ [e]\<rparr>)" using none by (simp add: no_programs_def)
    then obtain w2 where "exec ?ip (w\<lparr>trace := trace w @ [e]\<rparr>) = (False, w2)"
      using exec_no_programs by blast
    ultimately show ?thesis
      by (simp add: test_find_scanner_def find_ip_neighbor_scanner_def select_scanner_def windows_scanner_def
          linux_scanner_def dummy_scanner_def exec_simps)
  next
    assume works: "programs_work w \<and> (\<forall>out. \<exists>rows. windows_rows out = map Inr rows) \<and>
      (\<forall>out. \<exists>rows. linux_rows out = map Inr rows) \<and> (\<forall>out. \<exists>links. json_links out = Inr links)"
    then obtain es where "exec ?pwsh w = (True, w\<lparr>trace := trace w @ es\<rparr>)"
      using exec_programs_work(1) by blast
    moreover obtain ns w' where "exec (windows_scan windows_rows) (w\<lparr>trace := trace w @ es\<rparr>) = (Inr ns, w')"
      using windows_scan_works [OF programs_work_extend [THEN iffD2]] works by blast
    ultimately show ?thesis
      by (simp add: test_find_scanner_def find_ip_neighbor_scanner_def select_scanner_def windows_scanner_def
          exec_simps)
  qed
  show "test_linux_scan linux_rows json_links w"
  proof (cases "no_programs w")
    case True
    then obtain w' where "exec ?ip w = (False, w')" using exec_no_programs by blast
    then show ?thesis by (simp add: test_linux_scan_def test_scan_if_supported_def linux_scanner_def)
  next
    case False
    then obtain es where "exec ?ip w = (True, w\<lparr>trace := trace w @ es\<rparr>)"
      using assms exec_programs_work(1) by blast
    moreover obtain ns w' where "exec (linux_scan linux_rows json_links) (w\<lparr>trace := trace w @ es\<rparr>) = (Inr ns, w')"
      using linux_scan_works [OF programs_work_extend [THEN iffD2]] assms False by blast
    ultimately show ?thesis by (simp add: test_linux_scan_def test_scan_if_supported_def linux_scanner_def)
  qed
  show "test_windows_scan windows_rows w"
  proof (cases "no_programs w")
    case True
    then obtain w' where "exec ?pwsh w = (False, w')" using exec_no_programs by blast
    then show ?thesis by (simp add: test_windows_scan_def test_scan_if_supported_def windows_scanner_def)
  next
    case False
    then obtain es where "exec ?pwsh w = (True, w\<lparr>trace := trace w @ es\<rparr>)"
      using assms exec_programs_work(1) by blast
    moreover obtain ns w' where "exec (windows_scan windows_rows) (w\<lparr>trace := trace w @ es\<rparr>) = (Inr ns, w')"
      using windows_scan_works [OF programs_work_extend [THEN iffD2]] assms False by blast
    ultimately show ?thesis by (simp add: test_windows_scan_def test_scan_if_supported_def windows_scanner_def)
  qed
qed

lemma packet_tests:
  assumes "message_codec enc dec" and "enc \<lparr>req_response_collector_port = 1\<rparr> \<noteq> []"
  shows "test_decode_request enc dec" "test_decode_empty_request dec"
  using message_codec.frame_of_encoding [OF assms]
  by (simp_all add: test_decode_request_def test_decode_empty_request_def protobuf_decode_def)

text \<open>
  The test of \<^verbatim>\<open>udp_receiver.rs\<close>: a datagram sent to the group comes back to the receiver of the same
  host. \<open>join\<close> polls the receiver first, so its socket is ready when the datagram is sent; what arrives on it
  is what was sent to the group since then, as from the address \<open>own\<close>. \<^verbatim>\<open>BytesCodec\<close> is an argument.
\<close>

definition looped_back :: "socket_addr \<Rightarrow> sockaddr_v6 \<Rightarrow> event list \<Rightarrow> incoming list" where
  "looped_back own dest es =
     map (\<lambda>(a, d). Inr (d, own)) (filter (\<lambda>(a, d). a = dest) (concat (map sent_datagram es)))"

definition test_multicast ::
  "((anyhow_error, (byte list \<times> socket_addr) option) result observed \<Rightarrow>
      (anyhow_error, (byte list \<times> socket_addr) option) result observed \<Rightarrow>
      (anyhow_error, (byte list \<times> socket_addr) option) result observed) \<Rightarrow>
   ((io_error \<Rightarrow> io_error) \<Rightarrow> (io_error, byte list) frame_decoder \<Rightarrow> incoming observed \<Rightarrow>
      (io_error, byte list \<times> socket_addr) result observed) \<Rightarrow>
   (io_error, byte list) frame_decoder \<Rightarrow> socket_addr \<Rightarrow> world \<Rightarrow> bool" where
  "test_multicast select framed bytes_codec own w =
     (let multicast_ip = get_discovery_ip; port = 50000; address = socket_addr_v6 multicast_ip port 0 0;
          expected_data = [1, 2, 3];
          (socket, w1) = exec (build_receiver_socket True multicast_ip port) w;
          (sent, w2) = exec (tokio_send_multicast address expected_data) w1;
          arrived = looped_back own address (drop (length (trace w1)) (trace w2));
          packets = try_flatten_stream (Some
            (map_ok (\<lambda>_. framed id bytes_codec (Observed arrived False)) socket))
      in case items (join select Anyhow_Io Anyhow_Io (Some sent) packets) of
           Inr (actual_data, _) # _ \<Rightarrow> expected_data = actual_data
         | _ \<Rightarrow> False)"

text \<open>A codec that takes all the bytes there are, and a system that lets the test use the network.\<close>

definition takes_all :: "('e, byte list) frame_decoder \<Rightarrow> bool" where
  "takes_all dec \<longleftrightarrow> (\<forall>b. dec b = (Inr (if b = [] then None else Some b), []))"

definition multicast_works :: "world \<Rightarrow> bool" where
  "multicast_works w \<longleftrightarrow>
     (\<forall>tr a. \<exists>s. os_udp_bind (os w) tr a = Inr s) \<and> (\<forall>tr s. \<exists>a. os_local_addr (os w) tr s = Inr a) \<and>
     (\<forall>tr s ip i. os_join_multicast (os w) tr s ip i = Inr ()) \<and>
     (\<forall>tr s b. os_set_multicast_loop (os w) tr s b = Inr ()) \<and>
     (\<forall>tr s d a. \<exists>n. os_send_to (os w) tr s d a = Inr n)"

lemma multicast_works_calls:
  assumes "multicast_works w"
  obtains sock own written where
    "\<And>tr a. os_udp_bind (os w) tr a = Inr (sock tr a)" "\<And>tr s. os_local_addr (os w) tr s = Inr (own tr s)"
    "\<And>tr s d a. os_send_to (os w) tr s d a = Inr (written tr s d a)"
    "\<And>tr s ip i. os_join_multicast (os w) tr s ip i = Inr ()"
    "\<And>tr s b. os_set_multicast_loop (os w) tr s b = Inr ()"
  using assms unfolding multicast_works_def by metis

lemma send_tests:
  assumes "multicast_works w"
  shows "test_send_multicast w" and "test_send_unicast w"
  by (rule multicast_works_calls [OF assms], simp add: test_send_multicast_def test_send_unicast_def
      tokio_send_multicast_def tokio_send_unicast_def new_sender_socket_def call_defs exec_simps)+

lemma udp_sends_back:
  assumes "multicast_works w"
  shows "\<exists>s w1 w2. exec (build_receiver_socket True i p) w = (Inr s, w1) \<and>
    exec (tokio_send_multicast a d) w1 = (Inr (), w2) \<and>
    concat (map sent_datagram (drop (length (trace w1)) (trace w2))) = [(a, d)]"
proof -
  note os = multicast_works_calls [OF assms]
  obtain s w1 where w1: "exec (build_receiver_socket True i p) w = (Inr s, w1)" "os w1 = os w"
    by (rule os, simp add: build_receiver_socket_def call_defs exec_simps)
  have "\<exists>w2 es. exec (tokio_send_multicast a d) w1 = (Inr (), w2) \<and> trace w2 = trace w1 @ es"
    by (rule os, simp add: tokio_send_multicast_def new_sender_socket_def call_defs exec_simps w1(2))
  then obtain w2 es where w2: "exec (tokio_send_multicast a d) w1 = (Inr (), w2)" "trace w2 = trace w1 @ es"
    by blast
  have "concat (map sent_datagram es) = [(a, d)]"
    using tokio.exec_multicast [of a d w1] w2 by (simp add: tokio_udp_sender_def log_of_def)
  with w1(1) w2 show ?thesis by auto
qed

lemma test_multicast_passes:
  assumes "stream_select select" and "udp_framing framed" and "takes_all dec" and "multicast_works w" and "0 < rounds"
  shows "test_multicast select (framed rounds) dec own w"
proof -
  let ?dest = "socket_addr_v6 get_discovery_ip 50000 0 0"
  obtain s w1 w2 where w: "exec (build_receiver_socket True get_discovery_ip 50000) w = (Inr s, w1)"
    "exec (tokio_send_multicast ?dest [1, 2, 3]) w1 = (Inr (), w2)"
    "concat (map sent_datagram (drop (length (trace w1)) (trace w2))) = [(?dest, [1, 2, 3])]"
    using udp_sends_back [OF assms(4)] by blast
  have dec: "dec [1, 2, 3] = (Inr (Some [1, 2, 3]), [])" "dec [] = (Inr None, [])"
    using assms(3) by (auto simp: takes_all_def)
  obtain n where n: "rounds = Suc n" using assms(5) gr0_implies_Suc by blast
  have "items (framed n id dec (Observed [Inr ([], own)] False)) = []"
  proof (cases n)
    case 0
    then show ?thesis by (simp add: udp_framing.framed_start [OF assms(2)])
  next
    case (Suc k)
    then show ?thesis
      using udp_framing.framed_no_frame [where framed = framed and dec = dec and b = "[]", OF assms(2) dec(2)]
      by (cases k) (simp_all add: udp_framing.framed_start [OF assms(2)] udp_framing.framed_Nil [OF assms(2)])
  qed
  then have arrived: "items (framed rounds id dec (Observed (looped_back own ?dest
      (drop (length (trace w1)) (trace w2))) False)) = [Inr ([1, 2, 3], own)]"
    using udp_framing.framed_frame [where dec = dec, OF assms(2) dec(1)] w(3) n by (simp add: looped_back_def)
  have "items (join select Anyhow_Io Anyhow_Io (Some (Inr ())) (try_flatten_stream (Some (map_ok
      (\<lambda>_. framed rounds id dec (Observed (looped_back own ?dest
        (drop (length (trace w1)) (trace w2))) False)) (Inr s))))) = [Inr ([1, 2, 3], own)]"
    using join_shuffles [OF assms(1), of Anyhow_Io Anyhow_Io "Some (Inr ())"
      "framed rounds id dec (Observed (looped_back own ?dest (drop (length (trace w1)) (trace w2))) False)"]
    by (simp add: arrived try_flatten_stream_def result_simps future_error_def)
  then show ?thesis using w(1,2) by (simp add: test_multicast_def Let_def)
qed

section \<open>The tests together\<close>

text \<open>The readers of CSV and JSON are not the program's: what they read in the texts of the tests.\<close>

definition reads_test_texts ::
  "(byte list \<Rightarrow> (csv_error, net_neighbor) result list) \<Rightarrow>
   (byte list \<Rightarrow> (csv_error, linux_neighbor) result list) \<Rightarrow>
   (byte list \<Rightarrow> (json_error, link list) result) \<Rightarrow> bool" where
  "reads_test_texts windows_rows linux_rows json_links \<longleftrightarrow>
     windows_rows net_neighbor_output = map Inr net_neighbor_rows \<and>
     linux_rows ip_neighbor_output = map Inr example_rows \<and>
     json_links ip_link_output = Inr example_links"

lemma neighbor_tests_pass:
  assumes "reads_test_texts windows_rows linux_rows json_links" and "no_programs w"
  shows "test_find_scanner windows_rows linux_rows json_links w \<and> test_get_socket_address_unicast \<and>
    test_get_socket_address_link_local \<and> test_linux_scan linux_rows json_links w \<and>
    test_linux_parse_output linux_rows json_links \<and> test_windows_scan windows_rows w \<and>
    test_windows_parse_output windows_rows"
  using assms scan_tests socket_address_tests test_linux_parse_output test_windows_parse_output
  unfolding reads_test_texts_def by blast

text \<open>Such readers and such a system exist.\<close>

definition test_windows_rows :: "byte list \<Rightarrow> (csv_error, net_neighbor) result list" where
  "test_windows_rows out = map Inr net_neighbor_rows"

definition test_linux_rows :: "byte list \<Rightarrow> (csv_error, linux_neighbor) result list" where
  "test_linux_rows out = map Inr example_rows"

definition test_json_links :: "byte list \<Rightarrow> (json_error, link list) result" where
  "test_json_links out = Inr example_links"

definition bare_world :: world where
  "bare_world = fresh_world\<lparr>os := obliging_os\<lparr>os_spawn := (\<lambda>_ _. Inl (Io_Error 2))\<rparr>\<rparr>"

lemma example_worlds: "no_programs bare_world"
  "reads_test_texts test_windows_rows test_linux_rows test_json_links"
  by (simp_all add: no_programs_def bare_world_def fresh_world_defs
      reads_test_texts_def test_windows_rows_def test_linux_rows_def test_json_links_def)

definition bytes_codec :: "(io_error, byte list) frame_decoder" where
  "bytes_codec b = (Inr (if b = [] then None else Some b), [])"

lemma takes_all_bytes_codec: "takes_all bytes_codec"
  by (simp add: takes_all_def bytes_codec_def)

lemma multicast_works_fresh: "multicast_works fresh_world"
  by (simp add: multicast_works_def fresh_world_defs)

end
