(* ===== verification/Spec2Isabelle.thy ===== *)
theory Spec2Isabelle
  imports Prelude Ip_Addr Ip_Text Discovery Protocol Wire_Format Task_Runtime Concurrency For_Each
    Streams Udp Packet Process Process_Pipes Ip_Neighbor Response Collection Scanner Scan_Run Server
    Server_Spec Server_Exec Network Cli Test_Support Test_Server Test_Scanner Test_Collector Test_Network
begin

text \<open>
  Tansa: service discovery on a local network over IPv6 multicast, verified.

  \<^bold>\<open>The program.\<close> A server (\<^verbatim>\<open>main/src/server.rs\<close>) publishes the port of a service; a
  scanner (\<^verbatim>\<open>main/src/scanner.rs\<close>) finds the services published on the same discovery
  port. They meet at one hard-coded multicast address (\<^verbatim>\<open>main/src/lib.rs\<close>), and, where
  multicast does not work, at the addresses of the neighbours on the same links
  (\<^verbatim>\<open>main/src/network/ip_neighbor\<close>). A scanner sends a request that carries the port of its
  gRPC response collector (\<^verbatim>\<open>main/src/response_collector.rs\<close>); each server that receives it
  submits a response with its service port (\<^verbatim>\<open>main/src/response_sender.rs\<close>), and the
  collector takes the remote address with that port for the service. A server also announces its
  port when it starts, and a scanner takes the source address of the announcement with that port.
  Packets travel as protocol buffers (\<^verbatim>\<open>protocol/rust/src/lib.rs\<close>) over UDP sockets
  (\<^verbatim>\<open>main/src/network/udp_sender.rs\<close>, \<^verbatim>\<open>udp_receiver.rs\<close>, \<^verbatim>\<open>main/src/packet.rs\<close>).

  \<^bold>\<open>Theories, and the code they model.\<close>

  \<^item> \<open>Prelude\<close>: machine integers, \<^verbatim>\<open>Result\<close> and \<^verbatim>\<open>Option\<close>, lists.
  \<^item> \<open>Ip_Addr\<close>, \<open>Ip_Text\<close>: the addresses of \<^verbatim>\<open>std::net\<close>, their printing and parsing, with
    the round trips.
  \<^item> \<open>Discovery\<close>: \<^verbatim>\<open>main/src/lib.rs\<close>.
  \<^item> \<open>Protocol\<close>: \<^verbatim>\<open>protocol/rust/src/lib.rs\<close>; the generated codec is a parameter, its laws the
    locales \<open>message_decoder\<close>, \<open>message_codec\<close> and \<open>packet_codec\<close>, each extending the one before; none
    says how much of the input a failing decode consumes. \<open>Wire_Format\<close>: the proto3 encoding of the
    messages in \<^verbatim>\<open>protocol/grpc\<close>, for which those laws are proved.
  \<^item> \<open>Task_Runtime\<close>: what an \<^verbatim>\<open>async fn\<close> is (a \<open>task\<close>, a sequence of atomic steps on a
    \<open>world\<close>), and the calls to the system below, recorded in the trace of the world and
    answered by arbitrary functions of it. \<open>Concurrency\<close>: interleavings of tasks
    (\<open>try_join_all\<close>), and what a group of tasks leaves in the trace. \<open>For_Each\<close>:
    \<open>try_for_each_concurrent\<close>, its invariants and its progress.
  \<^item> \<open>Streams\<close>: streams by what they have yielded, and \<^verbatim>\<open>main/src/stream.rs\<close>.
  \<^item> \<open>Udp\<close>: \<^verbatim>\<open>udp_sender.rs\<close>, \<^verbatim>\<open>udp_receiver.rs\<close>, the contract of a sender and of the framing,
    the latter indexed by how many rounds of decoding it has made. \<open>Packet\<close>: \<^verbatim>\<open>main/src/packet.rs\<close>, and
    the packet in a datagram, as a partial function that is undefined where decoding never ends.
  \<^item> \<open>Process\<close>: \<^verbatim>\<open>main/src/process.rs\<close>, call by call; \<open>Process_Pipes\<close>: the same with the child
    running beside its parent and a pipe of bounded capacity between them. \<open>Ip_Neighbor\<close>: the three files of
    \<^verbatim>\<open>main/src/network/ip_neighbor\<close>, and the contract of a scanner of neighbours.
  \<^item> \<open>Response\<close>: \<^verbatim>\<open>response_sender.rs\<close>, \<^verbatim>\<open>response_collector.rs\<close>, and the contracts of a response
    sender and of the channel of services.
  \<^item> \<open>Scanner\<close>: \<^verbatim>\<open>main/src/scanner.rs\<close>. \<open>Server\<close>: \<^verbatim>\<open>main/src/server.rs\<close>, whose receiving loop is
    the step relation \<open>serve_step\<close>. \<open>Cli\<close>: \<^verbatim>\<open>cli/src/main.rs\<close>, from the parsed command to the lines
    printed, the exit code and the messages of the error reported.
  \<^item> \<open>Scan_Run\<close>: the scan as a state machine whose steps are those of its three sources, of which the
    streams of \<open>Scanner\<close> are the observations; and a scan that its caller drops.
    \<open>Collection\<close>: the response collector beside the consumer of its stream, and the queue it
    implements. \<open>Server_Spec\<close>: the abstract publisher that the server implements. \<open>Server_Exec\<close>: one
    schedule of the server that can be run. \<open>Network\<close>: any number of
    scanners and servers on one network, with hostile hosts among them; its steps are executions of
    \<open>send_requests\<close>, \<open>serve_setup\<close>, \<open>serve_handler\<close>, \<open>submit_response\<close> and \<open>extract_service\<close>, each in any world.
  \<^item> \<open>Test_Server\<close>, \<open>Test_Scanner\<close>, \<open>Test_Collector\<close>, \<open>Test_Network\<close>: the unit tests of the source, as
    scenarios on the definitions above, less those of \<^verbatim>\<open>process.rs\<close> that run PowerShell, whose outcome is that
    of PowerShell. They check the definitions on fixed inputs; \<open>Test_Support\<close>: the address literals and mocks they use.

  \<^bold>\<open>How state and operations correspond.\<close> A fallible operation returns a sum, with the error on the
  left; a \<^verbatim>\<open>?\<close> is an early return (\<open>try_await\<close>, \<open>and_then\<close>). A trait is a record of its
  operations, and what its users rely on is a locale, interpreted on the implementation the program
  uses. An operation of the system is one step that appends itself and its answer to the trace;
  the datagrams sent and the responses delivered are projections of the trace, so they
  count exactly the calls that succeeded. A stream is observed at some moment: what it has yielded
  so far and whether it has ended; \<open>observe\<close> says how far a future has come by then, and is an
  arbitrary function. The server is a state machine over the packets that arrive and the steps of
  its handlers, in any order.

  \<^bold>\<open>What is shown.\<close> In this theory, discovery end to end, by request and by announcement. In
  \<open>Network\<close>, over all runs of any number of participants: whatever hostile hosts send, what is discovered is
  published by a server or lies at an address of a hostile host, servers answer none but those that asked,
  and whoever sees each other can still discover each other, unless one of them is stuck on a datagram on which
  decoding never ends. In \<open>Scan_Run\<close>: a scan can be observed as a
  stream exactly when some run yields it, and one that is dropped has sent a part of its requests, in order. In \<open>Server_Spec\<close> and \<open>Collection\<close>,
  simulations of the two abstract machines, step by step, from which bounds and orders follow. In
  \<open>Server\<close>: announcing reaches everyone exactly once under every interleaving, requests are
  answered at most once and nothing else is, only the receiver or a failed announcement ends a
  server, and from each reachable state every further packet can be handled. In \<open>Scanner\<close>: where
  requests go, what a scan yields, which announcements count. In \<open>Response\<close>: which submissions are
  accepted, with which status the others are refused, and in which order services are received.
  In \<open>Packet\<close>: what a receiver yields, datagram by datagram. In \<open>Ip_Neighbor\<close> and \<open>Process\<close>:
  which neighbours are found, which external commands are run, and what each failure becomes.
  In \<open>Ip_Text\<close>, \<open>Wire_Format\<close>, \<open>Streams\<close>, \<open>Udp\<close> and \<open>Cli\<close>: round trips, and the contracts the
  other theories rest on. In the \<open>Test_\<close> theories: those tests pass on the model.

  \<^bold>\<open>Bounds.\<close> A task is a datatype, so it has finitely many steps (\<open>run_steps_exec\<close>): that is how the bodies of
  the \<^verbatim>\<open>async fn\<close>s are, whose loops run over lists, and it is no result. A call that the system never answers
  is a step that is never taken. What may not end is modelled apart. A server in its receiving loop has no last step. A command whose
  output does not fit the pipe blocks (\<open>Process_Pipes\<close>). A receiver whose decoder refuses a datagram without
  consuming it refuses it for ever within one poll: \<open>message_in\<close> is then \<open>None\<close>, nothing behind the
  datagram is yielded (\<open>packets_received\<close>), and its host is stuck (\<open>Network\<close>). The rounds of the framing are no fuel: every
  number of rounds is a moment of the program's run, statements hold at each, and what is received in the
  end is received after some number of them and ever after. The decoders of \<open>Wire_Format\<close> recurse on
  the rest of the input. Ports are 16-bit words, port fields of messages 32-bit words, with the conversions
  checked as in the code.

  \<^bold>\<open>What is not modelled.\<close> Parsing CSV and JSON, the gRPC transport, parsing
  the command line, and log output are other crates' code or have no effect on the program; they
  are parameters or are left out. The one debug message whose argument can make the caller
  return early is kept (\<open>new_sender_socket\<close>). The hostile hosts of \<open>Network\<close> send from addresses of
  their own; one that forges the source address of a datagram is not modelled. Time and the build script are
  not modelled.
\<close>

section \<open>Properties\<close>

text \<open>
  C1: Discovery by request, end to end. The datagram with which a scanner asks,
  coming from an IPv6 address, reaches the server's receiver as one request; handling it calls the response
  sender once, with the text of that address and the port of the scanner's collector; and the collector,
  given that response by a server at an IPv6 address, discovers that address with the service port.
\<close>

theorem service_discovered_by_request:
  assumes "packet_codec encode decode" and "udp_framing framed" and "0 < rounds"
    and "observe (new_receiver_socket get_discovery_ip port) = Some (Inr s)"
    and "datagram = encode (packet_from_request \<lparr>req_response_collector_port = into_u32 (get_port rc)\<rparr>)"
    and "items (arrivals s) = [Inr (datagram, V6 scanner_addr)]"
    and "service_port \<noteq> 0" and "ch_receiver_alive c"
  shows "\<exists>request. items (tokio_packet_receiver (framed rounds) decode observe arrivals get_discovery_ip port)
      = [Inr (request, scanner_addr)] \<and>
    exec (serve_handler send service_port (request, scanner_addr)) w =
      (Inr (), snd (exec (send \<lparr>res_service_port = into_u32 service_port\<rparr>
         (''http://'' @ show_sockaddr_v6 (set_port (get_port rc) scanner_addr))) w)) \<and>
    submit_response channel_send (Some (V6 server_addr)) \<lparr>res_service_port = into_u32 service_port\<rparr> c =
      (Inr (), c\<lparr>ch_queue := ch_queue c @ [\<lparr>address = set_port service_port server_addr\<rparr>]\<rparr>)"
proof (rule exI, intro conjI)
  let ?p = "packet_from_request \<lparr>req_response_collector_port = into_u32 (get_port rc)\<rparr>"
  show "items (tokio_packet_receiver (framed rounds) decode observe arrivals get_discovery_ip port)
      = [Inr (?p, scanner_addr)]"
    by (rule encoded_packet_received [where observe = observe, OF assms(1,2,4)])
      (use assms(3,5,6) in \<open>simp_all add: packet_from_request_def\<close>)
  show "exec (serve_handler send service_port (?p, scanner_addr)) w =
      (Inr (), snd (exec (send \<lparr>res_service_port = into_u32 service_port\<rparr>
         (''http://'' @ show_sockaddr_v6 (set_port (get_port rc) scanner_addr))) w))"
    by (simp add: exec_serve_handler answer_def set_port_def)
  show "submit_response channel_send (Some (V6 server_addr)) \<lparr>res_service_port = into_u32 service_port\<rparr> c =
      (Inr (), c\<lparr>ch_queue := ch_queue c @ [\<lparr>address = set_port service_port server_addr\<rparr>]\<rparr>)"
    using assms(7,8) by (simp add: submit_response_def channel_send_def)
qed

theorem service_discovered_by_request_witness:
  "\<exists>request.
    items (tokio_packet_receiver (frame_datagrams 1) decode_packet (observe_after 3 fresh_world)
       (\<lambda>_. Observed [Inr (encode_packet (packet_from_request \<lparr>req_response_collector_port = into_u32 4000\<rparr>),
          V6 wildcard_addr)] False) get_discovery_ip 50000) = [Inr (request, wildcard_addr)] \<and>
    exec (serve_handler grpc_send 80 (request, wildcard_addr)) fresh_world =
      (Inr (), snd (exec (grpc_send \<lparr>res_service_port = into_u32 80\<rparr>
         (''http://'' @ show_sockaddr_v6 (set_port 4000 wildcard_addr))) fresh_world)) \<and>
    submit_response channel_send (Some (V6 wildcard_addr)) \<lparr>res_service_port = into_u32 80\<rparr>
        \<lparr>ch_queue = [], ch_receiver_alive = True\<rparr> =
      (Inr (), \<lparr>ch_queue = [\<lparr>address = set_port 80 wildcard_addr\<rparr>], ch_receiver_alive = True\<rparr>)"
proof -
  let ?rc = "\<lparr>get_port = 4000, collect = Observed [] False\<rparr>"
  let ?arrivals = "\<lambda>_ :: nat. Observed [Inr (encode_packet (packet_from_request
      \<lparr>req_response_collector_port = into_u32 4000\<rparr>), V6 wildcard_addr) :: incoming] False"
  show ?thesis
    using service_discovered_by_request [of encode_packet decode_packet frame_datagrams 1
        "observe_after 3 fresh_world" 50000 1
        "encode_packet (packet_from_request \<lparr>req_response_collector_port = into_u32 4000\<rparr>)" ?rc ?arrivals
        wildcard_addr 80 "\<lparr>ch_queue = [], ch_receiver_alive = True\<rparr>" grpc_send fresh_world wildcard_addr,
        OF wire.packet_codec_axioms framing.udp_framing_axioms _ ready_socket]
    by simp
qed

text \<open>
  C2: Discovery by announcement, end to end. The datagram a server announces
  itself with, received by a scanner from an IPv6 address, is discovered as exactly one service, that
  address with the service port.
\<close>

theorem service_discovered_by_announcement:
  assumes "packet_codec encode decode" and "udp_framing framed" and "0 < rounds"
    and "observe (new_receiver_socket get_discovery_ip port) = Some (Inr s)"
    and "datagram = encode (packet_from_response \<lparr>res_service_port = into_u32 service_port\<rparr>)"
    and "items (arrivals s) = [Inr (datagram, V6 server_addr)]"
  shows "items (receive_announcements (tokio_packet_receiver (framed rounds) decode observe arrivals) get_discovery_ip port)
    = [Inr \<lparr>address = set_port service_port server_addr\<rparr>]"
proof -
  have "items (tokio_packet_receiver (framed rounds) decode observe arrivals get_discovery_ip port)
      = [Inr (packet_from_response \<lparr>res_service_port = into_u32 service_port\<rparr>, server_addr)]"
    by (rule encoded_packet_received [where observe = observe, OF assms(1,2,4)])
      (use assms(3,5,6) in \<open>simp_all add: packet_from_response_def\<close>)
  then show ?thesis
    by (simp add: receive_announcements_items announcement_item_def announced_def List.map_filter_simps)
qed

theorem service_discovered_by_announcement_witness:
  "items (receive_announcements (tokio_packet_receiver (frame_datagrams 1) decode_packet
     (observe_after 3 fresh_world) (\<lambda>_. Observed [Inr (encode_packet (packet_from_response
       \<lparr>res_service_port = into_u32 80\<rparr>), V6 wildcard_addr)] False)) get_discovery_ip 50000)
   = [Inr \<lparr>address = set_port 80 wildcard_addr\<rparr>]"
  by (rule service_discovered_by_announcement [of encode_packet decode_packet frame_datagrams 1
        "observe_after 3 fresh_world" 50000 1, OF wire.packet_codec_axioms framing.udp_framing_axioms
        _ ready_socket refl]) simp_all

text \<open>
  The scanner, which sends to its neighbours one after the other, and the
  server, which sends to all of them concurrently, reach the same neighbours when both succeed: the datagrams
  differ in nothing but their order.
\<close>

theorem scanner_and_server_reach_the_same:
  assumes "udp_sender_contract sender" and "try_join_all_contract join_all"
    and "exec (send_to_neighbors sender port data neighbors) w = (Inr (), w')"
    and "exec (announce_to_ip_neighbors join_all port neighbors data sender) v = (Inr (), v')"
  shows "\<exists>xs ys. datagrams w' = datagrams w @ xs \<and> datagrams v' = datagrams v @ ys \<and> mset xs = mset ys"
  using udp_sender_contract.exec_send_to_neighbors [OF assms(1,3)]
    udp_sender_contract.exec_announce_to_ip_neighbors [OF assms(1,2,4)]
  by fastforce

theorem scanner_and_server_reach_the_same_witness:
  "\<exists>w' v'. exec (send_to_neighbors tokio_udp_sender 50000 [1] example_neighbors) fresh_world = (Inr (), w') \<and>
    exec (announce_to_ip_neighbors join_in_order 50000 example_neighbors [1] tokio_udp_sender) fresh_world
      = (Inr (), v') \<and> mset (datagrams w') = mset (datagrams v')"
proof -
  obtain w' where w': "exec (send_to_neighbors tokio_udp_sender 50000 [1] example_neighbors) fresh_world = (Inr (), w')"
    by (simp add: tokio_udp_sender_def tokio_send_unicast_def new_sender_socket_def example_neighbors_def
        call_defs exec_simps Let_def fresh_world_defs)
  obtain v' where v': "exec (announce_to_ip_neighbors join_in_order 50000 example_neighbors [1] tokio_udp_sender)
      fresh_world = (Inr (), v')"
    by (simp add: announce_to_ip_neighbors_def tokio_udp_sender_def tokio_send_unicast_def
        new_sender_socket_def example_neighbors_def call_defs exec_simps Let_def map_ok_def fresh_world_defs)
  have "datagrams fresh_world = []" by (simp add: log_of_def fresh_world_def)
  with scanner_and_server_reach_the_same [OF tokio.udp_sender_contract_axioms
      in_order.try_join_all_contract_axioms w' v'] w' v'
  show ?thesis by auto
qed

end
